theory Spec2Isabelle
  imports Main "HOL-Library.Char_ord"
begin

section \<open>The scanner the lexer is built on\<close>

text \<open>
  \<^verbatim>\<open>cmd/lexer.go\<close> drives a \<^verbatim>\<open>text/scanner.Scanner\<close> of the Go standard library,
  initialised by \<^verbatim>\<open>Init\<close> (mode \<^verbatim>\<open>GoTokens\<close>) with the white space set
  \<^verbatim>\<open>1<<'\t' | 1<<'\r' | 1<<' '\<close>. The scanner keeps one character of lookahead, which
  \<^verbatim>\<open>Peek\<close> returns, \<^verbatim>\<open>Next\<close> consumes and \<^verbatim>\<open>Scan\<close> starts from, so its state is the
  input that has not been consumed yet. The model is over ASCII input: a character is a
  \<^typ>\<open>char\<close>, the end of the input is the empty list, and only ASCII letters and digits
  count as letters and digits.
\<close>

type_synonym src = string

definition tab :: char where "tab = CHR 0x09"
definition newline :: char where "newline = CHR 0x0A"
definition cr :: char where "cr = CHR 0x0D"
definition space :: char where "space = CHR 0x20"
definition dquote :: char where "dquote = CHR 0x22"
definition squote :: char where "squote = CHR 0x27"
definition backslash :: char where "backslash = CHR 0x5C"
definition backquote :: char where "backquote = CHR 0x60"

text \<open>The token classes of \<^verbatim>\<open>text/scanner\<close>: the constants \<^verbatim>\<open>EOF = -1\<close>,
  \<^verbatim>\<open>Ident = -2\<close>, \<^verbatim>\<open>Int = -3\<close>, \<^verbatim>\<open>Float = -4\<close>, \<^verbatim>\<open>Char = -5\<close>, \<^verbatim>\<open>String = -6\<close>,
  \<^verbatim>\<open>RawString = -7\<close>, \<^verbatim>\<open>Comment = -8\<close>; any other token is the character itself.\<close>

datatype scan_tok =
    scanner_EOF | scanner_Ident | scanner_Int | scanner_Float | scanner_Char
  | scanner_String | scanner_RawString | scanner_Comment | Rune char

definition isLetter :: "char \<Rightarrow> bool" where
  "isLetter c \<longleftrightarrow> (CHR ''a'' \<le> c \<and> c \<le> CHR ''z'') \<or> (CHR ''A'' \<le> c \<and> c \<le> CHR ''Z'')"

definition isDecimal :: "char \<Rightarrow> bool" where
  "isDecimal c \<longleftrightarrow> CHR ''0'' \<le> c \<and> c \<le> CHR ''9''"

text \<open>\<^verbatim>\<open>lower(ch) = ('a' - 'A') | ch\<close>: the lower-case letter when \<open>ch\<close> is an ASCII
  letter.\<close>

definition lower :: "char \<Rightarrow> char" where
  "lower c = char_of (or (of_char c) (32::nat))"

definition isHex :: "char \<Rightarrow> bool" where
  "isHex c \<longleftrightarrow> isDecimal c \<or> (CHR ''a'' \<le> lower c \<and> lower c \<le> CHR ''f'')"

definition digitVal :: "char \<Rightarrow> nat" where
  "digitVal c =
     (if isDecimal c then of_char c - of_char CHR ''0''
      else if CHR ''a'' \<le> lower c \<and> lower c \<le> CHR ''f'' then of_char (lower c) - of_char CHR ''a'' + 10
      else 16)"

definition isIdentRune :: "char \<Rightarrow> nat \<Rightarrow> bool" where
  "isIdentRune c i \<longleftrightarrow> c = CHR ''_'' \<or> isLetter c \<or> (isDecimal c \<and> 0 < i)"

definition isWhitespace :: "char \<Rightarrow> bool" where
  "isWhitespace c \<longleftrightarrow> c = tab \<or> c = cr \<or> c = space"

text \<open>\<^verbatim>\<open>scanIdentifier\<close>: the first character is an identifier character; the rest of
  the identifier is the longest run of identifier characters after it.\<close>

definition scanIdentifier :: "src \<Rightarrow> src" where
  "scanIdentifier cs = dropWhile (\<lambda>c. isIdentRune c 1) (tl cs)"

text \<open>\<^verbatim>\<open>digits\<close>: a run of digits of the base (and of \<^verbatim>\<open>_\<close> separators). A digit that is
  too large for the base is consumed too; it is reported as an error, which changes
  neither the token nor the position.\<close>

definition digits :: "src \<Rightarrow> nat \<Rightarrow> src" where
  "digits cs base =
     (if base \<le> 10 then dropWhile (\<lambda>c. isDecimal c \<or> c = CHR ''_'') cs
      else dropWhile (\<lambda>c. isHex c \<or> c = CHR ''_'') cs)"

text \<open>\<^verbatim>\<open>scanNumber\<close>, entered at the first digit (or, with \<open>seenDot\<close>, at the first digit
  after a leading \<^verbatim>\<open>.\<close>): prefix, integer part, fraction, exponent.\<close>

definition scanExponent :: "scan_tok \<Rightarrow> src \<Rightarrow> scan_tok \<times> src" where
  "scanExponent tok cs =
     (case cs of
        [] \<Rightarrow> (tok, cs)
      | c # r \<Rightarrow>
          if lower c = CHR ''e'' \<or> lower c = CHR ''p'' then
            (case r of
               [] \<Rightarrow> (scanner_Float, r)
             | d # r' \<Rightarrow>
                 if d = CHR ''+'' \<or> d = CHR ''-'' then (scanner_Float, digits r' 10)
                 else (scanner_Float, digits r 10))
          else (tok, cs))"

definition scanFraction :: "nat \<Rightarrow> src \<Rightarrow> scan_tok \<times> src" where
  "scanFraction base cs = scanExponent scanner_Float (digits cs base)"

definition scanInteger :: "nat \<Rightarrow> src \<Rightarrow> scan_tok \<times> src" where
  "scanInteger base cs =
     (case digits cs base of
        [] \<Rightarrow> scanExponent scanner_Int []
      | c # r \<Rightarrow>
          if c = CHR ''.'' then scanFraction base r
          else scanExponent scanner_Int (c # r))"

definition scanNumber :: "src \<Rightarrow> bool \<Rightarrow> scan_tok \<times> src" where
  "scanNumber cs seenDot =
     (if seenDot then scanFraction 10 cs
      else
        (case cs of
           [] \<Rightarrow> scanInteger 10 cs
         | c # r \<Rightarrow>
             if c = CHR ''0'' then
               (case r of
                  [] \<Rightarrow> scanInteger 8 r
                | p # r' \<Rightarrow>
                    if lower p = CHR ''x'' then scanInteger 16 r'
                    else if lower p = CHR ''o'' then scanInteger 8 r'
                    else if lower p = CHR ''b'' then scanInteger 2 r'
                    else scanInteger 8 r)
             else scanInteger 10 cs))"

text \<open>\<^verbatim>\<open>scanDigits\<close> and \<^verbatim>\<open>scanEscape\<close>: the escape sequences of a quoted literal.
  \<open>scanEscape\<close> is entered at the backslash and returns the input from the first
  character after the escape.\<close>

fun scanDigits :: "src \<Rightarrow> nat \<Rightarrow> nat \<Rightarrow> src" where
  "scanDigits [] base n = []"
| "scanDigits (c # cs) base n =
     (if 0 < n \<and> digitVal c < base then scanDigits cs base (n - 1) else c # cs)"

definition scanEscape :: "char \<Rightarrow> src \<Rightarrow> src" where
  "scanEscape quote cs =
     (case tl cs of
        [] \<Rightarrow> []
      | c # r \<Rightarrow>
          if c \<in> set ''abfnrtv'' \<or> c = backslash \<or> c = quote then r
          else if c \<in> set ''01234567'' then scanDigits (c # r) 8 3
          else if c = CHR ''x'' then scanDigits r 16 2
          else if c = CHR ''u'' then scanDigits r 16 4
          else if c = CHR ''U'' then scanDigits r 16 8
          else c # r)"

lemma length_scanDigits: "length (scanDigits cs base n) \<le> length cs"
  by (induction cs base n rule: scanDigits.induct) auto

lemma length_scanEscape: "length (scanEscape quote (c # cs)) \<le> length cs"
proof (cases cs)
  case Nil
  then show ?thesis by (simp add: scanEscape_def)
next
  case (Cons d r)
  have "length (scanDigits r b n) \<le> Suc (length r)" for b n
    using length_scanDigits [of r b n] by simp
  moreover have "length (scanDigits (d # r) b n) \<le> Suc (length r)" for b n
    using length_scanDigits [of "d # r" b n] by simp
  ultimately show ?thesis using Cons by (simp add: scanEscape_def)
qed

text \<open>\<^verbatim>\<open>scanString\<close>, from the first character after the opening quote: it stops at the
  closing quote, at a newline or at the end of the input (both reported as "literal not
  terminated").\<close>

function scanString :: "char \<Rightarrow> src \<Rightarrow> src" where
  "scanString quote [] = []"
| "scanString quote (c # cs) =
     (if c = quote then c # cs
      else if c = newline then c # cs
      else if c = backslash then scanString quote (scanEscape quote (c # cs))
      else scanString quote cs)"
  by pat_completeness auto
termination
proof (relation "measure (\<lambda>(q, cs). length cs)")
  show "wf (measure (\<lambda>(q, cs). length cs))" by simp
next
  fix quote c cs
  show "((quote, scanEscape quote (c # cs)), (quote, c # cs)) \<in> measure (\<lambda>(q, cs). length cs)"
    using length_scanEscape [of quote c cs] by simp
next
  fix quote :: char and c cs
  show "((quote, cs), (quote, c # cs)) \<in> measure (\<lambda>(q, cs). length cs)" by simp
qed

definition scanRawString :: "src \<Rightarrow> src" where
  "scanRawString cs = dropWhile (\<lambda>c. c \<noteq> backquote) cs"

text \<open>\<^verbatim>\<open>scanComment\<close>, entered at the second character of \<^verbatim>\<open>//\<close> or \<^verbatim>\<open>/*\<close>. A line
  comment ends before the newline, a general comment after its \<^verbatim>\<open>*/\<close>.\<close>

fun generalComment :: "src \<Rightarrow> src" where
  "generalComment [] = []"
| "generalComment [c] = []"
| "generalComment (c # d # r) =
     (if c = CHR ''*'' \<and> d = CHR ''/'' then r else generalComment (d # r))"

definition scanComment :: "src \<Rightarrow> src" where
  "scanComment cs =
     (case cs of
        [] \<Rightarrow> []
      | c # r \<Rightarrow> if c = CHR ''/'' then dropWhile (\<lambda>x. x \<noteq> newline) r else generalComment r)"

lemma length_generalComment: "length (generalComment cs) \<le> length cs"
  by (induction cs rule: generalComment.induct) auto

lemma length_scanComment: "length (scanComment cs) \<le> length cs"
proof (cases cs)
  case Nil
  then show ?thesis by (simp add: scanComment_def)
next
  case (Cons c r)
  have "length (dropWhile (\<lambda>x. x \<noteq> newline) r) \<le> length r"
    by (rule length_dropWhile_le)
  moreover have "length (generalComment r) \<le> length r"
    by (rule length_generalComment)
  ultimately show ?thesis using Cons by (simp add: scanComment_def)
qed

text \<open>\<^verbatim>\<open>TokenText\<close>: the text between the start of the token and the input that is
  left after it.\<close>

definition tokenText :: "src \<Rightarrow> src \<Rightarrow> string" where
  "tokenText start rest = take (length start - length rest) start"

definition token :: "src \<Rightarrow> scan_tok \<times> src \<Rightarrow> scan_tok \<times> src \<times> string" where
  "token start r = (fst r, snd r, tokenText start (snd r))"

text \<open>\<^verbatim>\<open>Scan\<close>: skip the white space, then read one token. The result is the token
  class, the input after the token and the token's text. In mode \<^verbatim>\<open>GoTokens\<close> comments
  are skipped (\<^verbatim>\<open>goto redo\<close>), so the scan starts again after a comment.\<close>

function Scan :: "src \<Rightarrow> scan_tok \<times> src \<times> string" where
  "Scan cs =
     (case dropWhile isWhitespace cs of
        [] \<Rightarrow> (scanner_EOF, [], [])
      | c # r \<Rightarrow>
          if isIdentRune c 0 then token (c # r) (scanner_Ident, scanIdentifier (c # r))
          else if isDecimal c then token (c # r) (scanNumber (c # r) False)
          else if c = dquote then token (c # r) (scanner_String, tl (scanString dquote r))
          else if c = squote then token (c # r) (scanner_Char, tl (scanString squote r))
          else if c = CHR ''.'' then
            (case r of
               [] \<Rightarrow> token (c # r) (Rune c, r)
             | d # r' \<Rightarrow>
                 if isDecimal d then token (c # r) (scanNumber r True)
                 else token (c # r) (Rune c, r))
          else if c = CHR ''/'' then
            (case r of
               [] \<Rightarrow> token (c # r) (Rune c, r)
             | d # r' \<Rightarrow>
                 if d = CHR ''/'' \<or> d = CHR ''*'' then Scan (scanComment r)
                 else token (c # r) (Rune c, r))
          else if c = backquote then token (c # r) (scanner_RawString, tl (scanRawString r))
          else token (c # r) (Rune c, r))"
  by pat_completeness auto
termination
proof (relation "measure length")
  show "wf (measure length)" by simp
next
  fix cs :: src and c r d r'
  assume a: "dropWhile isWhitespace cs = c # r" and b: "r = d # r'"
  have "length (c # r) \<le> length cs"
    using length_dropWhile_le [of isWhitespace cs] a by simp
  moreover have "length (scanComment r) \<le> length r"
    by (rule length_scanComment)
  ultimately show "(scanComment r, cs) \<in> measure length" by simp
qed

declare Scan.simps [simp del]

section \<open>The lexer\<close>

text \<open>
  \<^verbatim>\<open>type Token int\<close> with \<^verbatim>\<open>ILLEGAL Token = iota\<close> and \<^verbatim>\<open>WS\<close> declared in
  \<^verbatim>\<open>cmd/lexer.go\<close>. The other token constants are generated by goyacc from the grammar
  file, which is not among the sources.
\<close>

text \<open>Modelled from the spec: the token constants of the generated parser (identifier,
  path literal, integer, boolean and string literals, the punctuation, the keywords
  \<^verbatim>\<open>MATCH\<close> and \<^verbatim>\<open>RETURN\<close>, end of input). The lexer only compares them with each
  other, so they are the constructors of a datatype (\<open>INT_tok\<close> is the token \<^verbatim>\<open>INT\<close>).\<close>

datatype Token =
    ILLEGAL | WS
  | IDENT | JSONPATH | INT_tok | BOOLEAN | STRING
  | LPAREN | RPAREN | COLON | MATCH | RETURN | EOF | LBRACE | RBRACE | COMMA

text \<open>Modelled from the spec: the integer \<^verbatim>\<open>int(tok)\<close> that \<^verbatim>\<open>Lex\<close> returns for a token.
  \<^verbatim>\<open>ILLEGAL\<close> is 0 and \<^verbatim>\<open>WS\<close> is 1 by their declaration; goyacc numbers the tokens of
  a grammar from 57346 on, in the order of their declaration, which is taken to be the
  order above.\<close>

fun tokcode :: "Token \<Rightarrow> int" where
  "tokcode ILLEGAL = 0"
| "tokcode WS = 1"
| "tokcode IDENT = 57346"
| "tokcode JSONPATH = 57347"
| "tokcode INT_tok = 57348"
| "tokcode BOOLEAN = 57349"
| "tokcode STRING = 57350"
| "tokcode LPAREN = 57351"
| "tokcode RPAREN = 57352"
| "tokcode COLON = 57353"
| "tokcode MATCH = 57354"
| "tokcode RETURN = 57355"
| "tokcode EOF = 57356"
| "tokcode LBRACE = 57357"
| "tokcode RBRACE = 57358"
| "tokcode COMMA = 57359"

text \<open>\<^verbatim>\<open>yySymType\<close>: the semantic value the lexer fills in; \<^verbatim>\<open>Lex\<close> only writes its
  field \<^verbatim>\<open>strVal\<close>.\<close>

record yySymType =
  strVal :: string

text \<open>\<^verbatim>\<open>type Lexer struct\<close>. The field \<open>s\<close> is the scanner, that is the input not yet
  consumed; \<open>buf_tok\<close> and \<open>buf_lit\<close> are the fields of \<^verbatim>\<open>buf\<close>.\<close>

record Lexer =
  s :: src
  buf_tok :: Token
  buf_lit :: string
  definingProps :: bool

definition NewLexer :: "string \<Rightarrow> Lexer" where
  "NewLexer input = \<lparr>s = input, buf_tok = ILLEGAL, buf_lit = [], definingProps = False\<rparr>"

text \<open>\<^verbatim>\<open>strings.ToUpper\<close> on ASCII text.\<close>

definition upper :: "char \<Rightarrow> char" where
  "upper c = (if CHR ''a'' \<le> c \<and> c \<le> CHR ''z'' then char_of (of_char c - (32::nat)) else c)"

definition ToUpper :: "string \<Rightarrow> string" where
  "ToUpper str = map upper str"

text \<open>\<^verbatim>\<open>isValidJsonPathChar\<close>: the characters of a path literal.\<close>

definition isValidJsonPathChar :: "char \<Rightarrow> bool" where
  "isValidJsonPathChar c \<longleftrightarrow>
     c = CHR ''.'' \<or> c = CHR ''['' \<or> c = CHR '']'' \<or>
     (CHR ''0'' \<le> c \<and> c \<le> CHR ''9'') \<or> c = CHR ''_'' \<or>
     (CHR ''a'' \<le> c \<and> c \<le> CHR ''z'') \<or> (CHR ''A'' \<le> c \<and> c \<le> CHR ''Z'') \<or>
     c = dquote \<or> c = CHR ''*'' \<or> c = CHR ''$'' \<or> c = CHR ''#''"

text \<open>The white space the capture of a path literal skips: it includes the newline,
  which the scanner's own white space set does not.\<close>

definition isCaptureSpace :: "char \<Rightarrow> bool" where
  "isCaptureSpace c \<longleftrightarrow> c = space \<or> c = tab \<or> c = newline \<or> c = cr"

text \<open>\<^verbatim>\<open>func (l *Lexer) Lex(lval *yySymType) int\<close>: the returned integer, the semantic
  value and the lexer after the call.\<close>

definition capturing :: "Lexer \<Rightarrow> bool" where
  "capturing l \<longleftrightarrow>
     buf_tok l = RETURN \<or> buf_tok l = LBRACE \<or> (buf_tok l = COMMA \<and> definingProps l)"

definition Lex :: "Lexer \<Rightarrow> yySymType \<Rightarrow> int \<times> yySymType \<times> Lexer" where
  "Lex l lval =
     (if buf_tok l = EOF then (0, lval, l)
      else if capturing l then
        (let cs = dropWhile isCaptureSpace (s l)
         in (tokcode JSONPATH,
             lval\<lparr>strVal := takeWhile isValidJsonPathChar cs\<rparr>,
             l\<lparr>s := dropWhile isValidJsonPathChar cs, buf_tok := ILLEGAL\<rparr>))
      else
        (case Scan (s l) of
           (tok, rest, lit) \<Rightarrow>
             (let l1 = l\<lparr>s := rest\<rparr> in
              case tok of
                scanner_Ident \<Rightarrow>
                  if ToUpper lit = ''MATCH'' then (tokcode MATCH, lval, l1)
                  else if ToUpper lit = ''RETURN'' then (tokcode RETURN, lval, l1\<lparr>buf_tok := RETURN\<rparr>)
                  else if ToUpper lit = ''TRUE'' \<or> ToUpper lit = ''FALSE''
                    then (tokcode BOOLEAN, lval\<lparr>strVal := lit\<rparr>, l1)
                  else (tokcode IDENT, lval\<lparr>strVal := lit\<rparr>, l1)
              | scanner_EOF \<Rightarrow> (tokcode EOF, lval, l1\<lparr>buf_tok := EOF\<rparr>)
              | scanner_String \<Rightarrow> (tokcode STRING, lval\<lparr>strVal := lit\<rparr>, l1)
              | scanner_Int \<Rightarrow> (tokcode INT_tok, lval\<lparr>strVal := lit\<rparr>, l1)
              | Rune c \<Rightarrow>
                  if c = CHR ''('' then (tokcode LPAREN, lval, l1\<lparr>buf_tok := LPAREN\<rparr>)
                  else if c = CHR '':'' then (tokcode COLON, lval, l1\<lparr>definingProps := True\<rparr>)
                  else if c = CHR '')'' then (tokcode RPAREN, lval, l1\<lparr>definingProps := False\<rparr>)
                  else if c = space \<or> c = tab \<or> c = cr then (tokcode WS, lval, l1)
                  else if c = CHR ''{'' then (tokcode LBRACE, lval, l1\<lparr>buf_tok := LBRACE\<rparr>)
                  else if c = CHR ''}'' then (tokcode RBRACE, lval, l1)
                  else if c = CHR '','' then (tokcode COMMA, lval, l1\<lparr>buf_tok := COMMA\<rparr>)
                  else (tokcode ILLEGAL, lval, l1)
              | _ \<Rightarrow> (tokcode ILLEGAL, lval, l1))))"

text \<open>Calling \<^verbatim>\<open>Lex\<close> \<open>n\<close> times in a row, each call on an empty semantic value, so
  that the \<^verbatim>\<open>strVal\<close> recorded with a returned integer is what that call wrote: the
  returned integers, each with its \<^verbatim>\<open>strVal\<close>, and the lexer at the end.\<close>

fun LexN :: "nat \<Rightarrow> Lexer \<Rightarrow> (int \<times> string) list \<times> Lexer" where
  "LexN 0 l = ([], l)"
| "LexN (Suc n) l =
     (case Lex l \<lparr>strVal = []\<rparr> of
        (code, lval, l') \<Rightarrow> (case LexN n l' of (out, l'') \<Rightarrow> ((code, strVal lval) # out, l'')))"

section \<open>The resource-kind resolver\<close>

text \<open>
  \<^verbatim>\<open>findGVR\<close> of \<^verbatim>\<open>cmd/cyphernetes/shell.go\<close> with the process-wide \<^verbatim>\<open>gvrCache\<close>. A Go
  \<^verbatim>\<open>error\<close> is a value: one handed over by a library (the discovery client), one made
  by \<^verbatim>\<open>fmt.Errorf\<close> from a message, or one that wraps another (\<^verbatim>\<open>%w\<close>).
\<close>

datatype error = External string | Errorf string | Wrapf string error

record GroupVersion =
  gv_Group :: string
  gv_Version :: string

record GroupVersionResource =
  Group :: string
  Version :: string
  Resource :: string

definition zeroGVR :: GroupVersionResource where
  "zeroGVR = \<lparr>Group = [], Version = [], Resource = []\<rparr>"

text \<open>The entries of the discovery catalog (\<^verbatim>\<open>metav1.APIResource\<close> and
  \<^verbatim>\<open>metav1.APIResourceList\<close>), with the fields \<^verbatim>\<open>findGVR\<close> reads: \<open>res_Name\<close> and
  \<open>res_Kind\<close> are the fields \<^verbatim>\<open>Name\<close> and \<^verbatim>\<open>Kind\<close> of a resource.\<close>

record APIResource =
  res_Name :: string
  res_Kind :: string
  ShortNames :: "string list"

record APIResourceList =
  GroupVersion :: string
  APIResources :: "APIResource list"

text \<open>\<^verbatim>\<open>strings.ToLower\<close> and \<^verbatim>\<open>strings.EqualFold\<close> on ASCII text.\<close>

definition toLower :: "char \<Rightarrow> char" where
  "toLower c = (if CHR ''A'' \<le> c \<and> c \<le> CHR ''Z'' then char_of (of_char c + (32::nat)) else c)"

definition ToLower :: "string \<Rightarrow> string" where
  "ToLower str = map toLower str"

definition EqualFold :: "string \<Rightarrow> string \<Rightarrow> bool" where
  "EqualFold a b \<longleftrightarrow> ToLower a = ToLower b"

fun containsIgnoreCase :: "string list \<Rightarrow> string \<Rightarrow> bool" where
  "containsIgnoreCase [] str = False"
| "containsIgnoreCase (item # slice) str =
     (if EqualFold item str then True else containsIgnoreCase slice str)"

text \<open>\<^verbatim>\<open>schema.ParseGroupVersion\<close> and \<^verbatim>\<open>GroupVersion.WithResource\<close> of the API
  machinery: an empty string or \<^verbatim>\<open>/\<close> is the empty group and version, a string with no
  slash is a version, a string with one slash is group and version, and more than one
  slash is an error.\<close>

definition ParseGroupVersion :: "string \<Rightarrow> error + GroupVersion" where
  "ParseGroupVersion gv =
     (if gv = [] \<or> gv = ''/'' then Inr \<lparr>gv_Group = [], gv_Version = []\<rparr>
      else if count_list gv CHR ''/'' = 0 then Inr \<lparr>gv_Group = [], gv_Version = gv\<rparr>
      else if count_list gv CHR ''/'' = 1 then
        Inr \<lparr>gv_Group = takeWhile (\<lambda>c. c \<noteq> CHR ''/'') gv,
             gv_Version = tl (dropWhile (\<lambda>c. c \<noteq> CHR ''/'') gv)\<rparr>
      else Inl (Errorf (''unexpected GroupVersion string: '' @ gv)))"

definition WithResource :: "GroupVersion \<Rightarrow> string \<Rightarrow> GroupVersionResource" where
  "WithResource gv resource = \<lparr>Group = gv_Group gv, Version = gv_Version gv, Resource = resource\<rparr>"

text \<open>The condition of the scan: the identifier is the plural name, the kind or a short
  name of the resource, compared without regard to case.\<close>

definition matchesResource :: "APIResource \<Rightarrow> string \<Rightarrow> string \<Rightarrow> bool" where
  "matchesResource resource resourceIdentifier normalizedIdentifier \<longleftrightarrow>
     EqualFold (res_Name resource) normalizedIdentifier \<or>
     EqualFold (res_Kind resource) resourceIdentifier \<or>
     containsIgnoreCase (ShortNames resource) normalizedIdentifier"

text \<open>The two nested loops over the catalog. The inner loop returns from \<^verbatim>\<open>findGVR\<close> at
  the first resource that matches: \<open>None\<close> is "no match in this list", \<open>Some\<close> the
  result of parsing the list's group and version for the match.\<close>

fun scanResources :: "string \<Rightarrow> APIResource list \<Rightarrow> string \<Rightarrow> string \<Rightarrow>
    (error + GroupVersionResource) option" where
  "scanResources groupVersion [] resourceIdentifier normalizedIdentifier = None"
| "scanResources groupVersion (resource # rs) resourceIdentifier normalizedIdentifier =
     (if matchesResource resource resourceIdentifier normalizedIdentifier then
        (case ParseGroupVersion groupVersion of
           Inl err \<Rightarrow> Some (Inl err)
         | Inr gv \<Rightarrow> Some (Inr (WithResource gv (res_Name resource))))
      else scanResources groupVersion rs resourceIdentifier normalizedIdentifier)"

fun scanCatalog :: "APIResourceList list \<Rightarrow> string \<Rightarrow> string \<Rightarrow>
    (error + GroupVersionResource) option" where
  "scanCatalog [] resourceIdentifier normalizedIdentifier = None"
| "scanCatalog (apiResource # ls) resourceIdentifier normalizedIdentifier =
     (case scanResources (GroupVersion apiResource) (APIResources apiResource)
             resourceIdentifier normalizedIdentifier of
        Some r \<Rightarrow> Some r
      | None \<Rightarrow> scanCatalog ls resourceIdentifier normalizedIdentifier)"

text \<open>The state \<^verbatim>\<open>findGVR\<close> works on: the cache, and a count of the calls of
  \<^verbatim>\<open>ServerPreferredResources\<close> made so far (a ghost counter, to state how often discovery
  is invoked).\<close>

record resolver =
  gvrCache :: "string \<rightharpoonup> GroupVersionResource"
  discoveryCalls :: nat

text \<open>\<^verbatim>\<open>findGVR\<close>. The first argument is what \<^verbatim>\<open>ServerPreferredResources\<close> answers if
  this call invokes it: an error or the catalog. The result is the pair Go returns, the
  coordinate and the error (\<open>None\<close> is \<^verbatim>\<open>nil\<close>), and the state after the call.\<close>

definition findGVR :: "error + APIResourceList list \<Rightarrow> string \<Rightarrow> resolver \<Rightarrow>
    (GroupVersionResource \<times> error option) \<times> resolver" where
  "findGVR discovery resourceIdentifier st =
     (let normalizedIdentifier = ToLower resourceIdentifier in
      case gvrCache st normalizedIdentifier of
        Some gvr \<Rightarrow> ((gvr, None), st)
      | None \<Rightarrow>
          (let st1 = st\<lparr>discoveryCalls := discoveryCalls st + 1\<rparr> in
           case discovery of
             Inl err \<Rightarrow> ((zeroGVR, Some err), st1)
           | Inr apiResourceList \<Rightarrow>
               (case scanCatalog apiResourceList resourceIdentifier normalizedIdentifier of
                  Some (Inl err) \<Rightarrow> ((zeroGVR, Some err), st1)
                | Some (Inr gvr) \<Rightarrow>
                    ((gvr, None), st1\<lparr>gvrCache := (gvrCache st1)(normalizedIdentifier \<mapsto> gvr)\<rparr>)
                | None \<Rightarrow>
                    ((zeroGVR,
                      Some (Errorf (''resource identifier not found: '' @ resourceIdentifier))),
                     st1))))"

section \<open>Sanitizing the result graph\<close>

text \<open>Modelled from the spec: the types \<^verbatim>\<open>parser.Node\<close>, \<^verbatim>\<open>parser.Edge\<close> and
  \<^verbatim>\<open>parser.Graph\<close>, whose declarations (package \<^verbatim>\<open>pkg/parser\<close>) are not among the
  sources, with the fields \<^verbatim>\<open>cmd/cyphernetes/shell-graph.go\<close> reads: a node has \<^verbatim>\<open>Id\<close>
  (here \<open>node_Id\<close>), \<^verbatim>\<open>Kind\<close> and \<^verbatim>\<open>Name\<close>; an edge has \<^verbatim>\<open>From\<close>, \<^verbatim>\<open>To\<close> and \<^verbatim>\<open>Type\<close>;
  a graph is a sequence of nodes and a sequence of edges.\<close>

record Node =
  node_Id :: string
  Kind :: string
  Name :: string

record Edge =
  From :: string
  To :: string
  Type :: string

record Graph =
  Nodes :: "Node list"
  Edges :: "Edge list"

text \<open>A value that \<^verbatim>\<open>json.Unmarshal\<close> stores in an \<^verbatim>\<open>interface{}\<close>: \<^verbatim>\<open>nil\<close>, a
  \<^verbatim>\<open>bool\<close>, a number, a \<^verbatim>\<open>string\<close>, a \<^verbatim>\<open>[]interface{}\<close> or a
  \<^verbatim>\<open>map[string]interface{}\<close>. Numbers are never inspected by this code.\<close>

datatype json =
    JNull | JBool bool | JNumber int | JString string
  | JArray "json list" | JObject "string \<Rightarrow> json option"

text \<open>\<^verbatim>\<open>fmt.Sprintf("%s/%s", node.Kind, node.Name)\<close>.\<close>

definition nodeId :: "Node \<Rightarrow> string" where
  "nodeId node = Kind node @ ''/'' @ Name node"

text \<open>The first loop: \<^verbatim>\<open>nodeMap[nodeId] = node\<close> for every node in turn, so a later node
  replaces an earlier one with the same kind and name. The map is kept as a list of
  keys and values in the order in which the keys were first inserted.\<close>

fun mapInsert :: "string \<Rightarrow> Node \<Rightarrow> (string \<times> Node) list \<Rightarrow> (string \<times> Node) list" where
  "mapInsert k v [] = [(k, v)]"
| "mapInsert k v (p # ps) = (if fst p = k then (k, v) # ps else p # mapInsert k v ps)"

fun buildNodeMap :: "Node list \<Rightarrow> (string \<times> Node) list \<Rightarrow> (string \<times> Node) list" where
  "buildNodeMap [] nodeMap = nodeMap"
| "buildNodeMap (node # nodes) nodeMap = buildNodeMap nodes (mapInsert (nodeId node) node nodeMap)"

text \<open>\<^verbatim>\<open>resultMapNode["name"] == node.Name\<close>: an \<^verbatim>\<open>interface{}\<close> equals a string when
  it holds a string with the same text; a missing key gives \<^verbatim>\<open>nil\<close>.\<close>

fun nameIs :: "json option \<Rightarrow> string \<Rightarrow> bool" where
  "nameIs (Some (JString v)) nm \<longleftrightarrow> v = nm"
| "nameIs _ nm \<longleftrightarrow> False"

text \<open>The inner loop over the documents found for a node's binding: the node is
  appended once for every document whose \<^verbatim>\<open>"name"\<close> is the string \<^verbatim>\<open>node.Name\<close>. The
  type assertion \<^verbatim>\<open>.(map[string]interface{})\<close> panics on a document that is not an
  object; \<open>None\<close> is the panic.\<close>

fun matchDocs :: "Node \<Rightarrow> json list \<Rightarrow> Node list option" where
  "matchDocs node [] = Some []"
| "matchDocs node (JObject resultMapNode # docs) =
     (case matchDocs node docs of
        None \<Rightarrow> None
      | Some ns \<Rightarrow>
          Some ((if nameIs (resultMapNode ''name'') (Name node) then [node] else []) @ ns))"
| "matchDocs node (_ # docs) = None"

text \<open>The loop that filters the nodes. \<^verbatim>\<open>resultMap[node.Id] != nil\<close> fails for a missing
  key and for a JSON \<^verbatim>\<open>null\<close>; the type assertion \<^verbatim>\<open>.([]interface{})\<close> panics on any other
  value that is not an array.\<close>

fun filterNodes :: "(string \<Rightarrow> json option) \<Rightarrow> Node list \<Rightarrow> Node list option" where
  "filterNodes resultMap [] = Some []"
| "filterNodes resultMap (node # nodes) =
     (case resultMap (node_Id node) of
        None \<Rightarrow> filterNodes resultMap nodes
      | Some JNull \<Rightarrow> filterNodes resultMap nodes
      | Some (JArray docs) \<Rightarrow>
          (case matchDocs node docs of
             None \<Rightarrow> None
           | Some ns \<Rightarrow>
               (case filterNodes resultMap nodes of
                  None \<Rightarrow> None
                | Some ms \<Rightarrow> Some (ns @ ms)))
      | Some _ \<Rightarrow> None)"

text \<open>\<^verbatim>\<open>sanitizeGraph\<close>. Two things come from outside the function and are arguments
  here: \<open>rangeOrder\<close>, the order in which Go's \<^verbatim>\<open>range\<close> happens to visit the values of
  \<^verbatim>\<open>nodeMap\<close> (unspecified by the language), and \<open>Unmarshal\<close>, the result of
  \<^verbatim>\<open>json.Unmarshal\<close> into a \<^verbatim>\<open>map[string]interface{}\<close>. The result is the pair Go
  returns, the graph and the error (\<open>None\<close> is \<^verbatim>\<open>nil\<close>); the outer \<open>None\<close> is a panic.\<close>

definition sanitizeGraph :: "(Node list \<Rightarrow> Node list) \<Rightarrow> (string \<Rightarrow> error + (string \<Rightarrow> json option)) \<Rightarrow>
    Graph \<Rightarrow> string \<Rightarrow> (Graph \<times> error option) option" where
  "sanitizeGraph rangeOrder Unmarshal g result =
     (let nodeMap = buildNodeMap (Nodes g) [];
          g1 = g\<lparr>Nodes := rangeOrder (map snd nodeMap)\<rparr>
      in case Unmarshal result of
           Inl err \<Rightarrow> Some (g1, Some (Wrapf ''error unmarshalling result: '' err))
         | Inr resultMap \<Rightarrow>
             (case filterNodes resultMap (Nodes g1) of
                None \<Rightarrow> None
              | Some filteredNodes \<Rightarrow>
                  (let filteredNodeIds = map nodeId filteredNodes;
                       filteredEdges =
                         filter (\<lambda>edge. From edge \<in> set filteredNodeIds \<and> To edge \<in> set filteredNodeIds)
                           (Edges g1)
                   in Some (g1\<lparr>Nodes := filteredNodes, Edges := filteredEdges\<rparr>, None))))"

text \<open>A node "still has matching documents in the result" when the result holds, under
  the node's binding, an array with a document whose \<^verbatim>\<open>"name"\<close> is the node's name.\<close>

fun docNamed :: "string \<Rightarrow> json \<Rightarrow> bool" where
  "docNamed nm (JObject resultMapNode) \<longleftrightarrow> nameIs (resultMapNode ''name'') nm"
| "docNamed nm _ \<longleftrightarrow> False"

definition hasDocument :: "(string \<Rightarrow> json option) \<Rightarrow> Node \<Rightarrow> bool" where
  "hasDocument resultMap node \<longleftrightarrow>
     (case resultMap (node_Id node) of
        Some (JArray docs) \<Rightarrow> list_ex (docNamed (Name node)) docs
      | _ \<Rightarrow> False)"

text \<open>\<^verbatim>\<open>strings.Split(nodeId, "/")\<close>: the segments between the slashes, at least one.\<close>

function Split :: "string \<Rightarrow> string list" where
  "Split str =
     (case dropWhile (\<lambda>c. c \<noteq> CHR ''/'') str of
        [] \<Rightarrow> [str]
      | sep # rest \<Rightarrow> takeWhile (\<lambda>c. c \<noteq> CHR ''/'') str # Split rest)"
  by pat_completeness auto
termination
proof (relation "measure length")
  show "wf (measure length)" by simp
next
  fix str :: string and sep rest
  assume "dropWhile (\<lambda>c. c \<noteq> CHR ''/'') str = sep # rest"
  then have "length (sep # rest) \<le> length str"
    using length_dropWhile_le [of "\<lambda>c. c \<noteq> CHR ''/''" str] by simp
  then show "(rest, str) \<in> measure length" by simp
qed

declare Split.simps [simp del]

text \<open>\<^verbatim>\<open>getKindFromNodeId\<close> returns \<^verbatim>\<open>parts[0]\<close> and \<^verbatim>\<open>getNameFromNodeId\<close> returns
  \<^verbatim>\<open>parts[1]\<close>; \<open>None\<close> is the panic of an index out of range.\<close>

definition getKindFromNodeId :: "string \<Rightarrow> string option" where
  "getKindFromNodeId str = (case Split str of [] \<Rightarrow> None | p0 # _ \<Rightarrow> Some p0)"

definition getNameFromNodeId :: "string \<Rightarrow> string option" where
  "getNameFromNodeId str = (case Split str of p0 # p1 # _ \<Rightarrow> Some p1 | _ \<Rightarrow> None)"

section \<open>The request worker and its concurrency gate\<close>

text \<open>
  \<^verbatim>\<open>NewQueryExecutor\<close> makes an unbuffered request channel and a semaphore channel of
  capacity 1, and starts one goroutine running \<^verbatim>\<open>processRequests\<close>. A caller of
  \<^verbatim>\<open>getK8sResources\<close> sends its request on the request channel and then waits on its own
  response channel. The goroutines are modelled by their program counters and the
  executions by the interleavings of their steps.

  A caller is about to send its request, is waiting for the reply, or has returned.
\<close>

datatype caller = Sending | Waiting | Returned

text \<open>A worker is at the \<^verbatim>\<open>range\<close> over the request channel, or holds the request of
  caller \<open>i\<close> and is about to acquire a token (\<^verbatim>\<open>q.semaphore <- struct{}{}\<close>), inside
  \<^verbatim>\<open>fetchResources\<close>, about to release the token (\<^verbatim>\<open><-q.semaphore\<close>), or about to send
  the reply on the caller's response channel.\<close>

datatype worker = Receiving | Acquiring nat | Fetching nat | Releasing nat | Replying nat

text \<open>The executor: the callers, the goroutines running \<^verbatim>\<open>processRequests\<close>, and the
  number of tokens in the semaphore channel.\<close>

record executor =
  callers :: "caller list"
  workers :: "worker list"
  semaphore :: nat

text \<open>\<^verbatim>\<open>make(chan struct{}, 1)\<close>: the capacity of the semaphore channel.\<close>

definition semaphoreCap :: nat where
  "semaphoreCap = 1"

text \<open>The executor right after \<^verbatim>\<open>NewQueryExecutor\<close>, with \<open>n\<close> callers about to submit:
  one worker, an empty semaphore.\<close>

definition NewQueryExecutor :: "nat \<Rightarrow> executor" where
  "NewQueryExecutor n = \<lparr>callers = replicate n Sending, workers = [Receiving], semaphore = 0\<rparr>"

text \<open>One step of one goroutine. A send on an unbuffered channel is a rendezvous with a
  receiver (\<open>submit\<close>, \<open>reply\<close>); a send on the semaphore needs room in its buffer
  (\<open>acquire\<close>) and a receive from it needs a token (\<open>release\<close>); \<open>fetched\<close> is the
  return of \<^verbatim>\<open>fetchResources\<close>.\<close>

inductive step :: "executor \<Rightarrow> executor \<Rightarrow> bool" where
  submit:
    "i < length (callers e) \<Longrightarrow> callers e ! i = Sending \<Longrightarrow>
     w < length (workers e) \<Longrightarrow> workers e ! w = Receiving \<Longrightarrow>
     step e (e\<lparr>callers := (callers e)[i := Waiting], workers := (workers e)[w := Acquiring i]\<rparr>)"
| acquire:
    "w < length (workers e) \<Longrightarrow> workers e ! w = Acquiring i \<Longrightarrow> semaphore e < semaphoreCap \<Longrightarrow>
     step e (e\<lparr>workers := (workers e)[w := Fetching i], semaphore := semaphore e + 1\<rparr>)"
| fetched:
    "w < length (workers e) \<Longrightarrow> workers e ! w = Fetching i \<Longrightarrow>
     step e (e\<lparr>workers := (workers e)[w := Releasing i]\<rparr>)"
| release:
    "w < length (workers e) \<Longrightarrow> workers e ! w = Releasing i \<Longrightarrow> 0 < semaphore e \<Longrightarrow>
     step e (e\<lparr>workers := (workers e)[w := Replying i], semaphore := semaphore e - 1\<rparr>)"
| reply:
    "w < length (workers e) \<Longrightarrow> workers e ! w = Replying i \<Longrightarrow>
     i < length (callers e) \<Longrightarrow> callers e ! i = Waiting \<Longrightarrow>
     step e (e\<lparr>callers := (callers e)[i := Returned], workers := (workers e)[w := Receiving]\<rparr>)"

inductive reachable :: "nat \<Rightarrow> executor \<Rightarrow> bool" where
  start: "reachable n (NewQueryExecutor n)"
| after: "reachable n e \<Longrightarrow> step e e' \<Longrightarrow> reachable n e'"

text \<open>The external calls in flight: the workers inside \<^verbatim>\<open>fetchResources\<close>.\<close>

fun fetching :: "worker \<Rightarrow> bool" where
  "fetching (Fetching i) = True"
| "fetching _ = False"

definition inFlight :: "executor \<Rightarrow> nat" where
  "inFlight e = length (filter fetching (workers e))"

text \<open>A worker holds a token from its acquire to its release.\<close>

fun holding :: "worker \<Rightarrow> bool" where
  "holding (Fetching i) = True"
| "holding (Releasing i) = True"
| "holding _ = False"

definition tokens_held :: "executor \<Rightarrow> bool" where
  "tokens_held e \<longleftrightarrow> length (filter holding (workers e)) = semaphore e \<and> semaphore e \<le> semaphoreCap"

section \<open>Properties of the lexer\<close>

subsection \<open>Scanning an identifier\<close>

lemma ident_not_ws: "isIdentRune c i \<Longrightarrow> \<not> isWhitespace c"
  by (auto simp: isIdentRune_def isLetter_def isDecimal_def isWhitespace_def tab_def cr_def space_def)

lemma dropWhile_ws_prefix:
  assumes "\<forall>c\<in>set ws. isWhitespace c" and "xs = [] \<or> \<not> isWhitespace (hd xs)"
  shows "dropWhile isWhitespace (ws @ xs) = xs"
  using assms by (cases xs) (simp_all add: dropWhile_append2)

lemma tokenText_append: "tokenText (lit @ rest) rest = lit"
  by (simp add: tokenText_def)

lemma Scan_ident:
  assumes ws: "\<forall>c\<in>set ws. isWhitespace c"
    and lit: "lit \<noteq> []" "isIdentRune (hd lit) 0" "\<forall>c\<in>set lit. isIdentRune c 1"
    and rest: "rest = [] \<or> \<not> isIdentRune (hd rest) 1"
  shows "Scan (ws @ lit @ rest) = (scanner_Ident, rest, lit)"
proof -
  obtain c r where cr: "lit = c # r" using lit(1) by (cases lit) auto
  have c0: "isIdentRune c 0" using lit(2) cr by simp
  have r1: "\<forall>x\<in>set r. isIdentRune x 1" using lit(3) cr by simp
  have "dropWhile isWhitespace (ws @ lit @ rest) = lit @ rest"
    using ws cr ident_not_ws [OF c0] by (intro dropWhile_ws_prefix) simp_all
  then have start: "dropWhile isWhitespace (ws @ lit @ rest) = c # (r @ rest)"
    using cr by simp
  have id: "scanIdentifier (c # (r @ rest)) = rest"
    using r1 rest by (cases rest) (simp_all add: scanIdentifier_def dropWhile_append2)
  have "Scan (ws @ lit @ rest) = token (c # (r @ rest)) (scanner_Ident, rest)"
    by (subst Scan.simps) (simp add: start c0 id)
  also have "\<dots> = (scanner_Ident, rest, lit)"
    using tokenText_append [of lit rest] cr by (simp add: token_def)
  finally show ?thesis .
qed

subsection \<open>After the end of the input\<close>

lemma Lex_EOF_code:
  assumes "fst (Lex l lval) = tokcode EOF"
  shows "buf_tok (snd (snd (Lex l lval))) = EOF"
  using assms
  by (auto simp: Lex_def Let_def split: if_splits prod.splits scan_tok.splits)

lemma LexN_at_EOF: "buf_tok l = EOF \<Longrightarrow> LexN n l = (replicate n (0, []), l)"
  by (induction n) (simp_all add: Lex_def)

lemma LexN_add:
  "LexN (m + n) l =
     (fst (LexN m l) @ fst (LexN n (snd (LexN m l))), snd (LexN n (snd (LexN m l))))"
  by (induction m arbitrary: l) (simp_all split: prod.splits)

subsection \<open>What a call does to the lookback and to the flag\<close>

lemma Lex_flag:
  "definingProps (snd (snd (Lex l lval))) =
     (if fst (Lex l lval) = tokcode COLON then True
      else if fst (Lex l lval) = tokcode RPAREN then False
      else definingProps l)"
proof (cases "buf_tok l = EOF \<or> capturing l")
  case True
  then show ?thesis by (auto simp: Lex_def Let_def)
next
  case False
  obtain tok rest lit where sc: "Scan (s l) = (tok, rest, lit)"
    by (cases "Scan (s l)") auto
  show ?thesis
  proof (cases tok)
    case (Rune c)
    then show ?thesis using False sc by (simp add: Lex_def Let_def)
  qed (use False sc in \<open>simp_all add: Lex_def Let_def\<close>)
qed

lemma Lex_COMMA_buf:
  assumes "fst (Lex l lval) = tokcode COMMA"
  shows "buf_tok (snd (snd (Lex l lval))) = COMMA
    \<and> definingProps (snd (snd (Lex l lval))) = definingProps l"
proof (cases "buf_tok l = EOF \<or> capturing l")
  case True
  then show ?thesis using assms by (cases "buf_tok l = EOF") (simp_all add: Lex_def Let_def)
next
  case False
  obtain tok rest lit where sc: "Scan (s l) = (tok, rest, lit)"
    by (cases "Scan (s l)") auto
  show ?thesis
  proof (cases tok)
    case (Rune c)
    then show ?thesis using False sc assms by (simp add: Lex_def Let_def split: if_splits)
  qed (use False sc assms in \<open>simp_all add: Lex_def Let_def split: if_splits\<close>)
qed

lemma Lex_capture:
  assumes "buf_tok l \<noteq> EOF" and "capturing l"
  shows "Lex l lval =
          (tokcode JSONPATH,
           lval\<lparr>strVal := takeWhile isValidJsonPathChar (dropWhile isCaptureSpace (s l))\<rparr>,
           l\<lparr>s := dropWhile isValidJsonPathChar (dropWhile isCaptureSpace (s l)), buf_tok := ILLEGAL\<rparr>)"
  using assms by (simp add: Lex_def Let_def)

lemma Lex_JSONPATH_code:
  assumes "fst (Lex l lval) = tokcode JSONPATH"
  shows "capturing l"
proof (rule ccontr)
  assume nc: "\<not> capturing l"
  show False
  proof (cases "buf_tok l = EOF")
    case True
    then show ?thesis using assms by (simp add: Lex_def)
  next
    case False
    obtain tok rest lit where sc: "Scan (s l) = (tok, rest, lit)"
      by (cases "Scan (s l)") auto
    show ?thesis
    proof (cases tok)
      case (Rune c)
      then show ?thesis using False nc sc assms by (simp add: Lex_def Let_def split: if_splits)
    qed (use False nc sc assms in \<open>simp_all add: Lex_def Let_def split: if_splits\<close>)
  qed
qed

subsection \<open>The claims about the lexer\<close>

text \<open>
  C1 (as the code has it). On the input \<^verbatim>\<open>RETURN d.metadata.name, d.spec.replicas\<close> the
  lexer emits one path literal only: after \<^verbatim>\<open>RETURN\<close> the leading space is skipped and
  \<^verbatim>\<open>d.metadata.name\<close> is captured, ending exactly at the comma. The comma is emitted as
  \<^verbatim>\<open>COMMA\<close>, but \<open>definingProps\<close> is off, so the capture is not entered again: the space
  after the comma is skipped by the scanner and the rest is read as ordinary tokens, the
  identifiers \<^verbatim>\<open>d\<close>, \<^verbatim>\<open>spec\<close> and \<^verbatim>\<open>replicas\<close> with an illegal token for each dot, then
  \<^verbatim>\<open>EOF\<close>, and 0 on every later call.
\<close>

theorem Lex_return_list:
  "LexN (9 + n) (NewLexer ''RETURN d.metadata.name, d.spec.replicas'') =
     ([(tokcode RETURN, []), (tokcode JSONPATH, ''d.metadata.name''), (tokcode COMMA, []),
       (tokcode IDENT, ''d''), (tokcode ILLEGAL, []), (tokcode IDENT, ''spec''),
       (tokcode ILLEGAL, []), (tokcode IDENT, ''replicas''), (tokcode EOF, [])]
      @ replicate n (0, []),
      \<lparr>s = [], buf_tok = EOF, buf_lit = [], definingProps = False\<rparr>)"
proof -
  have nine: "LexN 9 (NewLexer ''RETURN d.metadata.name, d.spec.replicas'') =
     ([(tokcode RETURN, []), (tokcode JSONPATH, ''d.metadata.name''), (tokcode COMMA, []),
       (tokcode IDENT, ''d''), (tokcode ILLEGAL, []), (tokcode IDENT, ''spec''),
       (tokcode ILLEGAL, []), (tokcode IDENT, ''replicas''), (tokcode EOF, [])],
      \<lparr>s = [], buf_tok = EOF, buf_lit = [], definingProps = False\<rparr>)"
    by code_simp
  have rest: "LexN n \<lparr>s = [], buf_tok = EOF, buf_lit = [], definingProps = False\<rparr> =
      (replicate n (0, []), \<lparr>s = [], buf_tok = EOF, buf_lit = [], definingProps = False\<rparr>)"
    by (rule LexN_at_EOF) simp
  show ?thesis
    by (simp only: LexN_add nine rest fst_conv snd_conv)
qed

text \<open>
  C1, the claim as stated fails: the nine calls that take the lexer to the end of
  \<^verbatim>\<open>RETURN d.metadata.name, d.spec.replicas\<close> emit no path literal \<^verbatim>\<open>d.spec.replicas\<close>;
  the call after the comma returns the identifier \<^verbatim>\<open>d\<close>.
\<close>

theorem Lex_return_list_counterexample:
  "buf_tok (snd (LexN 9 (NewLexer ''RETURN d.metadata.name, d.spec.replicas''))) = EOF
   \<and> (tokcode JSONPATH, ''d.spec.replicas'')
      \<notin> set (fst (LexN 9 (NewLexer ''RETURN d.metadata.name, d.spec.replicas'')))
   \<and> fst (LexN 4 (NewLexer ''RETURN d.metadata.name, d.spec.replicas'')) ! 3
      = (tokcode IDENT, ''d'')"
  by code_simp

text \<open>
  C2 (as the code has it). Keywords are recognised by spelling alone, wherever the
  identifier stands. When the lexer is not capturing a path literal and the input, after
  white space, starts with the identifier \<open>lit\<close>, the call returns \<^verbatim>\<open>MATCH\<close> if the
  upper-cased \<open>lit\<close> is \<^verbatim>\<open>MATCH\<close>, \<^verbatim>\<open>RETURN\<close> if it is \<^verbatim>\<open>RETURN\<close>, \<^verbatim>\<open>BOOLEAN\<close> if it is
  \<^verbatim>\<open>TRUE\<close> or \<^verbatim>\<open>FALSE\<close>, and only otherwise \<^verbatim>\<open>IDENT\<close> with \<open>lit\<close> as its text, unchanged.
\<close>

theorem Lex_identifier:
  assumes "buf_tok l \<noteq> EOF" and "\<not> capturing l"
    and "s l = ws @ lit @ rest"
    and "\<forall>c\<in>set ws. isWhitespace c"
    and "lit \<noteq> []" and "isIdentRune (hd lit) 0" and "\<forall>c\<in>set lit. isIdentRune c 1"
    and "rest = [] \<or> \<not> isIdentRune (hd rest) 1"
  shows "Lex l lval =
     (if ToUpper lit = ''MATCH'' then (tokcode MATCH, lval, l\<lparr>s := rest\<rparr>)
      else if ToUpper lit = ''RETURN'' then (tokcode RETURN, lval, l\<lparr>s := rest, buf_tok := RETURN\<rparr>)
      else if ToUpper lit = ''TRUE'' \<or> ToUpper lit = ''FALSE''
        then (tokcode BOOLEAN, lval\<lparr>strVal := lit\<rparr>, l\<lparr>s := rest\<rparr>)
      else (tokcode IDENT, lval\<lparr>strVal := lit\<rparr>, l\<lparr>s := rest\<rparr>))"
proof -
  have "Scan (s l) = (scanner_Ident, rest, lit)"
    using assms(3-8) Scan_ident [of ws lit rest] by simp
  then show ?thesis
    using assms(1,2) by (simp add: Lex_def)
qed

theorem Lex_identifier_witness:
  "Lex \<lparr>s = ''Match:Deployment)'', buf_tok = LPAREN, buf_lit = [], definingProps = False\<rparr>
       \<lparr>strVal = []\<rparr>
     = (tokcode MATCH, \<lparr>strVal = []\<rparr>,
        \<lparr>s = '':Deployment)'', buf_tok = LPAREN, buf_lit = [], definingProps = False\<rparr>)
   \<and> Lex \<lparr>s = '' Matcher:Deployment)'', buf_tok = LPAREN, buf_lit = [], definingProps = False\<rparr>
       \<lparr>strVal = []\<rparr>
     = (tokcode IDENT, \<lparr>strVal = ''Matcher''\<rparr>,
        \<lparr>s = '':Deployment)'', buf_tok = LPAREN, buf_lit = [], definingProps = False\<rparr>)"
proof -
  have u1: "ToUpper ''Match'' = ''MATCH''" by code_simp
  have u2: "ToUpper ''Matcher'' = ''MATCHER''" by code_simp
  show ?thesis
    using
      Lex_identifier [of
        "\<lparr>s = ''Match:Deployment)'', buf_tok = LPAREN, buf_lit = [], definingProps = False\<rparr>"
        "[]" "''Match''" "'':Deployment)''" "\<lparr>strVal = []\<rparr>"]
      Lex_identifier [of
        "\<lparr>s = '' Matcher:Deployment)'', buf_tok = LPAREN, buf_lit = [], definingProps = False\<rparr>"
        "'' ''" "''Matcher''" "'':Deployment)''" "\<lparr>strVal = []\<rparr>"]
    by (simp add: capturing_def isIdentRune_def isLetter_def isDecimal_def isWhitespace_def
        space_def u1 u2)
qed

text \<open>
  C2, the claim as stated fails: in \<^verbatim>\<open>(Match:Deployment)\<close> the binding \<^verbatim>\<open>Match\<close> stands
  in node position, and the lexer returns the keyword \<^verbatim>\<open>MATCH\<close> for it, with no text,
  not an identifier.
\<close>

theorem Lex_keyword_position_counterexample:
  "fst (LexN 2 (NewLexer ''(Match:Deployment)'')) = [(tokcode LPAREN, []), (tokcode MATCH, [])]
   \<and> tokcode MATCH \<noteq> tokcode IDENT"
  by code_simp

text \<open>
  C3 (as the code has it). The flag \<open>definingProps\<close> is set by the call that returns
  \<^verbatim>\<open>COLON\<close>, cleared by the call that returns \<^verbatim>\<open>RPAREN\<close>, and left as it is by every
  other call, those that return \<^verbatim>\<open>LBRACE\<close> and \<^verbatim>\<open>RBRACE\<close> included. When a call returns
  \<^verbatim>\<open>COMMA\<close> while the flag is on, the next call captures a path literal: it skips white
  space and returns \<^verbatim>\<open>JSONPATH\<close> with the longest run of path characters; when the
  flag is off, the call after the comma does not return a path literal.
\<close>

theorem Lex_definingProps:
  "definingProps (snd (snd (Lex l lval))) =
     (if fst (Lex l lval) = tokcode COLON then True
      else if fst (Lex l lval) = tokcode RPAREN then False
      else definingProps l)
   \<and> (fst (Lex l lval) = tokcode COMMA \<and> definingProps l \<longrightarrow>
        Lex (snd (snd (Lex l lval))) lval' =
          (tokcode JSONPATH,
           lval'\<lparr>strVal := takeWhile isValidJsonPathChar
                      (dropWhile isCaptureSpace (s (snd (snd (Lex l lval)))))\<rparr>,
           (snd (snd (Lex l lval)))
             \<lparr>s := dropWhile isValidJsonPathChar
                      (dropWhile isCaptureSpace (s (snd (snd (Lex l lval))))),
              buf_tok := ILLEGAL\<rparr>))
   \<and> (fst (Lex l lval) = tokcode COMMA \<and> \<not> definingProps l \<longrightarrow>
        fst (Lex (snd (snd (Lex l lval))) lval') \<noteq> tokcode JSONPATH)"
proof (intro conjI impI)
  show "definingProps (snd (snd (Lex l lval))) =
     (if fst (Lex l lval) = tokcode COLON then True
      else if fst (Lex l lval) = tokcode RPAREN then False
      else definingProps l)"
    by (rule Lex_flag)
next
  assume a: "fst (Lex l lval) = tokcode COMMA \<and> definingProps l"
  then have b: "buf_tok (snd (snd (Lex l lval))) = COMMA" "definingProps (snd (snd (Lex l lval)))"
    using Lex_COMMA_buf [of l lval] by simp_all
  show "Lex (snd (snd (Lex l lval))) lval' =
          (tokcode JSONPATH,
           lval'\<lparr>strVal := takeWhile isValidJsonPathChar
                      (dropWhile isCaptureSpace (s (snd (snd (Lex l lval)))))\<rparr>,
           (snd (snd (Lex l lval)))
             \<lparr>s := dropWhile isValidJsonPathChar
                      (dropWhile isCaptureSpace (s (snd (snd (Lex l lval))))),
              buf_tok := ILLEGAL\<rparr>)"
    by (rule Lex_capture) (simp_all add: b capturing_def)
next
  assume a: "fst (Lex l lval) = tokcode COMMA \<and> \<not> definingProps l"
  then have b: "buf_tok (snd (snd (Lex l lval))) = COMMA" "\<not> definingProps (snd (snd (Lex l lval)))"
    using Lex_COMMA_buf [of l lval] by simp_all
  then have "\<not> capturing (snd (snd (Lex l lval)))" by (simp add: capturing_def)
  then show "fst (Lex (snd (snd (Lex l lval))) lval') \<noteq> tokcode JSONPATH"
    using Lex_JSONPATH_code by blast
qed

theorem Lex_definingProps_witness:
  "snd (LexN 4 (NewLexer ''(a:b, c.d'')) =
      \<lparr>s = '', c.d'', buf_tok = LPAREN, buf_lit = [], definingProps = True\<rparr>
   \<and> fst (Lex \<lparr>s = '', c.d'', buf_tok = LPAREN, buf_lit = [], definingProps = True\<rparr> \<lparr>strVal = []\<rparr>)
      = tokcode COMMA
   \<and> Lex (snd (snd (Lex \<lparr>s = '', c.d'', buf_tok = LPAREN, buf_lit = [], definingProps = True\<rparr>
                      \<lparr>strVal = []\<rparr>))) \<lparr>strVal = []\<rparr>
      = (tokcode JSONPATH, \<lparr>strVal = ''c.d''\<rparr>,
         \<lparr>s = [], buf_tok = ILLEGAL, buf_lit = [], definingProps = True\<rparr>)"
proof -
  have r: "snd (LexN 4 (NewLexer ''(a:b, c.d'')) =
      \<lparr>s = '', c.d'', buf_tok = LPAREN, buf_lit = [], definingProps = True\<rparr>"
    by code_simp
  have c: "Lex \<lparr>s = '', c.d'', buf_tok = LPAREN, buf_lit = [], definingProps = True\<rparr> \<lparr>strVal = []\<rparr>
      = (tokcode COMMA, \<lparr>strVal = []\<rparr>,
         \<lparr>s = '' c.d'', buf_tok = COMMA, buf_lit = [], definingProps = True\<rparr>)"
    by code_simp
  show ?thesis
    using Lex_definingProps [of
        "\<lparr>s = '', c.d'', buf_tok = LPAREN, buf_lit = [], definingProps = True\<rparr>"
        "\<lparr>strVal = []\<rparr>" "\<lparr>strVal = []\<rparr>"]
    by (simp add: r c isCaptureSpace_def isValidJsonPathChar_def space_def tab_def newline_def
        cr_def dquote_def)
qed

text \<open>
  C3, the claim as stated fails. Lexing \<^verbatim>\<open>{\<close> does not enter the mode: after the first
  call on \<^verbatim>\<open>{a, b}\<close> the flag is off, and the comma inside the block is followed by the
  identifier \<^verbatim>\<open>b\<close>, not by a path literal. Lexing \<^verbatim>\<open>}\<close> does not leave it: on
  \<^verbatim>\<open>a:b}, c.d\<close> the flag, set by the colon, is still on after the \<^verbatim>\<open>}\<close>, and the comma
  after it is followed by the path literal \<^verbatim>\<open>c.d\<close>.
\<close>

theorem Lex_definingProps_counterexample:
  "\<not> definingProps (snd (snd (Lex (NewLexer ''{a, b}'') \<lparr>strVal = []\<rparr>)))
   \<and> fst (LexN 4 (NewLexer ''{a, b}'')) =
       [(tokcode LBRACE, []), (tokcode JSONPATH, ''a''), (tokcode COMMA, []), (tokcode IDENT, ''b'')]
   \<and> definingProps (snd (LexN 4 (NewLexer ''a:b}'')))
   \<and> fst (LexN 6 (NewLexer ''a:b}, c.d'')) =
       [(tokcode IDENT, ''a''), (tokcode COLON, []), (tokcode IDENT, ''b''), (tokcode RBRACE, []),
        (tokcode COMMA, []), (tokcode JSONPATH, ''c.d'')]"
  by code_simp

text \<open>
  C8. The end of the input is sticky. Once a call has returned the token \<^verbatim>\<open>EOF\<close>, every
  later call, however many, returns 0 (the end-of-input code of the generated parser)
  and leaves the lexer as it is, the unread input included, and the semantic value
  untouched: nothing is scanned again.
\<close>

theorem Lex_EOF_sticky:
  "fst (Lex l lval) = tokcode EOF \<Longrightarrow>
     LexN n (snd (snd (Lex l lval))) = (replicate n (0, []), snd (snd (Lex l lval)))
     \<and> Lex (snd (snd (Lex l lval))) lval' = (0, lval', snd (snd (Lex l lval)))"
proof -
  assume "fst (Lex l lval) = tokcode EOF"
  then have e: "buf_tok (snd (snd (Lex l lval))) = EOF" by (rule Lex_EOF_code)
  show ?thesis using LexN_at_EOF [OF e, of n] e by (simp add: Lex_def)
qed

theorem Lex_EOF_sticky_witness:
  "fst (Lex (NewLexer '' '') \<lparr>strVal = []\<rparr>) = tokcode EOF
   \<and> LexN 3 (snd (snd (Lex (NewLexer '' '') \<lparr>strVal = []\<rparr>))) =
       ([(0, []), (0, []), (0, [])], \<lparr>s = [], buf_tok = EOF, buf_lit = [], definingProps = False\<rparr>)"
proof -
  have h: "fst (Lex (NewLexer '' '') \<lparr>strVal = []\<rparr>) = tokcode EOF"
    by code_simp
  have l: "snd (snd (Lex (NewLexer '' '') \<lparr>strVal = []\<rparr>)) =
      \<lparr>s = [], buf_tok = EOF, buf_lit = [], definingProps = False\<rparr>"
    by code_simp
  show ?thesis using Lex_EOF_sticky [OF h, of 3] h l by (simp add: numeral_3_eq_3)
qed

section \<open>Properties of the resolver\<close>

lemma scanResources_None:
  "\<forall>r\<in>set rs. \<not> matchesResource r ident norm \<Longrightarrow> scanResources gv rs ident norm = None"
  by (induction rs) simp_all

lemma scanCatalog_None:
  "\<forall>l\<in>set catalog. \<forall>r\<in>set (APIResources l). \<not> matchesResource r ident norm
     \<Longrightarrow> scanCatalog catalog ident norm = None"
  by (induction catalog) (simp_all add: scanResources_None)

lemma findGVR_cache:
  "gvrCache (snd (findGVR discovery ident st)) =
     (case snd (fst (findGVR discovery ident st)) of
        Some err \<Rightarrow> gvrCache st
      | None \<Rightarrow> (gvrCache st)(ToLower ident \<mapsto> fst (fst (findGVR discovery ident st))))"
  by (auto simp: findGVR_def Let_def split: option.splits sum.splits)

lemma findGVR_hit:
  "gvrCache st (ToLower ident) = Some gvr \<Longrightarrow> findGVR discovery ident st = ((gvr, None), st)"
  by (simp add: findGVR_def)

lemma findGVR_calls: "discoveryCalls (snd (findGVR discovery ident st)) \<le> discoveryCalls st + 1"
  by (auto simp: findGVR_def Let_def split: option.splits sum.splits)

text \<open>
  C4 (as the code has it). When the first of two calls of \<^verbatim>\<open>findGVR\<close> for an identifier
  succeeds (by a cache hit or by a match in the catalog), the cache holds the coordinate
  under the lower-cased identifier afterwards, and the second call returns the same
  coordinate with no error and leaves the state as it is, whatever discovery would
  answer: it does not invoke discovery, so discovery is invoked at most once across the
  two calls. A failed resolution is not cached.
\<close>

theorem findGVR_twice:
  assumes "snd (fst (findGVR d1 ident st)) = None"
  shows "findGVR d2 ident (snd (findGVR d1 ident st)) =
           (fst (findGVR d1 ident st), snd (findGVR d1 ident st))
    \<and> gvrCache (snd (findGVR d1 ident st)) (ToLower ident) = Some (fst (fst (findGVR d1 ident st)))
    \<and> discoveryCalls (snd (findGVR d2 ident (snd (findGVR d1 ident st)))) \<le> discoveryCalls st + 1"
proof -
  have c: "gvrCache (snd (findGVR d1 ident st)) (ToLower ident) = Some (fst (fst (findGVR d1 ident st)))"
    using findGVR_cache [of d1 ident st] assms by simp
  have "findGVR d2 ident (snd (findGVR d1 ident st)) =
      ((fst (fst (findGVR d1 ident st)), None), snd (findGVR d1 ident st))"
    using c by (rule findGVR_hit)
  moreover have "(fst (fst (findGVR d1 ident st)), None) = fst (findGVR d1 ident st)"
    using assms by (simp add: prod_eq_iff)
  ultimately have t: "findGVR d2 ident (snd (findGVR d1 ident st)) =
           (fst (findGVR d1 ident st), snd (findGVR d1 ident st))"
    by simp
  show ?thesis using t c findGVR_calls [of d1 ident st] by simp
qed

theorem findGVR_twice_witness:
  "fst (findGVR (Inl (External ''unreachable'')) ''Deploy''
     (snd (findGVR
        (Inr [\<lparr>GroupVersion = ''v1'', APIResources =
                 [\<lparr>res_Name = ''pods'', res_Kind = ''Pod'', ShortNames = [''po'']\<rparr>]\<rparr>,
              \<lparr>GroupVersion = ''apps/v1'', APIResources =
                 [\<lparr>res_Name = ''deployments'', res_Kind = ''Deployment'', ShortNames = [''deploy'']\<rparr>]\<rparr>])
        ''Deploy'' \<lparr>gvrCache = Map.empty, discoveryCalls = 0\<rparr>)))
     = (\<lparr>Group = ''apps'', Version = ''v1'', Resource = ''deployments''\<rparr>, None)
   \<and> discoveryCalls (snd (findGVR (Inl (External ''unreachable'')) ''Deploy''
     (snd (findGVR
        (Inr [\<lparr>GroupVersion = ''v1'', APIResources =
                 [\<lparr>res_Name = ''pods'', res_Kind = ''Pod'', ShortNames = [''po'']\<rparr>]\<rparr>,
              \<lparr>GroupVersion = ''apps/v1'', APIResources =
                 [\<lparr>res_Name = ''deployments'', res_Kind = ''Deployment'', ShortNames = [''deploy'']\<rparr>]\<rparr>])
        ''Deploy'' \<lparr>gvrCache = Map.empty, discoveryCalls = 0\<rparr>)))) = 1"
proof -
  let ?d1 = "Inr [\<lparr>GroupVersion = ''v1'', APIResources =
                 [\<lparr>res_Name = ''pods'', res_Kind = ''Pod'', ShortNames = [''po'']\<rparr>]\<rparr>,
              \<lparr>GroupVersion = ''apps/v1'', APIResources =
                 [\<lparr>res_Name = ''deployments'', res_Kind = ''Deployment'', ShortNames = [''deploy'']\<rparr>]\<rparr>]
             :: error + APIResourceList list"
  let ?st = "\<lparr>gvrCache = Map.empty, discoveryCalls = 0\<rparr>"
  have h: "snd (fst (findGVR ?d1 ''Deploy'' ?st)) = None" by code_simp
  have v: "fst (findGVR ?d1 ''Deploy'' ?st) =
      (\<lparr>Group = ''apps'', Version = ''v1'', Resource = ''deployments''\<rparr>, None)" by code_simp
  have c: "discoveryCalls (snd (findGVR ?d1 ''Deploy'' ?st)) = 1" by code_simp
  have "findGVR (Inl (External ''unreachable'')) ''Deploy'' (snd (findGVR ?d1 ''Deploy'' ?st)) =
           (fst (findGVR ?d1 ''Deploy'' ?st), snd (findGVR ?d1 ''Deploy'' ?st))"
    using findGVR_twice [OF h, of "Inl (External ''unreachable'')"] by (elim conjE)
  then show ?thesis by (simp only: fst_conv snd_conv v c simp_thms)
qed

text \<open>
  C4, the claim as stated fails for an identifier that does not resolve: nothing is
  cached for it, and each of the two calls queries the discovery catalog.
\<close>

theorem findGVR_twice_counterexample:
  "discoveryCalls (snd (findGVR
        (Inr [\<lparr>GroupVersion = ''v1'', APIResources =
                 [\<lparr>res_Name = ''pods'', res_Kind = ''Pod'', ShortNames = [''po'']\<rparr>]\<rparr>])
        ''nosuch''
        (snd (findGVR
          (Inr [\<lparr>GroupVersion = ''v1'', APIResources =
                   [\<lparr>res_Name = ''pods'', res_Kind = ''Pod'', ShortNames = [''po'']\<rparr>]\<rparr>])
          ''nosuch'' \<lparr>gvrCache = Map.empty, discoveryCalls = 0\<rparr>)))) = 2"
  by code_simp

text \<open>
  C7. On a cache miss: when the discovery call fails, \<^verbatim>\<open>findGVR\<close> returns that error
  unchanged (with the zero coordinate); when discovery answers with a catalog none of
  whose resources matches the identifier by plural name, kind or short name, \<^verbatim>\<open>findGVR\<close>
  fails with the error \<^verbatim>\<open>resource identifier not found: \<close> followed by the identifier
  as the caller wrote it.
\<close>

theorem findGVR_errors:
  "gvrCache st (ToLower ident) = None \<Longrightarrow>
     fst (findGVR (Inl err) ident st) = (zeroGVR, Some err)
     \<and> ((\<forall>l\<in>set catalog. \<forall>r\<in>set (APIResources l). \<not> matchesResource r ident (ToLower ident)) \<longrightarrow>
          fst (findGVR (Inr catalog) ident st) =
            (zeroGVR, Some (Errorf (''resource identifier not found: '' @ ident))))"
  by (simp add: findGVR_def Let_def scanCatalog_None)

theorem findGVR_errors_witness:
  "fst (findGVR (Inl (External ''forbidden'')) ''NoSuch'' \<lparr>gvrCache = Map.empty, discoveryCalls = 0\<rparr>)
     = (zeroGVR, Some (External ''forbidden''))
   \<and> fst (findGVR
        (Inr [\<lparr>GroupVersion = ''v1'', APIResources =
                 [\<lparr>res_Name = ''pods'', res_Kind = ''Pod'', ShortNames = [''po'']\<rparr>]\<rparr>,
              \<lparr>GroupVersion = ''apps/v1'', APIResources =
                 [\<lparr>res_Name = ''deployments'', res_Kind = ''Deployment'', ShortNames = [''deploy'']\<rparr>]\<rparr>])
        ''NoSuch'' \<lparr>gvrCache = Map.empty, discoveryCalls = 0\<rparr>)
     = (zeroGVR, Some (Errorf ''resource identifier not found: NoSuch''))"
proof -
  let ?cat = "[\<lparr>GroupVersion = ''v1'', APIResources =
                 [\<lparr>res_Name = ''pods'', res_Kind = ''Pod'', ShortNames = [''po'']\<rparr>]\<rparr>,
              \<lparr>GroupVersion = ''apps/v1'', APIResources =
                 [\<lparr>res_Name = ''deployments'', res_Kind = ''Deployment'', ShortNames = [''deploy'']\<rparr>]\<rparr>]"
  let ?st = "\<lparr>gvrCache = Map.empty, discoveryCalls = 0\<rparr>"
  have miss: "gvrCache ?st (ToLower ''NoSuch'') = None" by simp
  have nomatch: "\<forall>l\<in>set ?cat. \<forall>r\<in>set (APIResources l). \<not> matchesResource r ''NoSuch'' (ToLower ''NoSuch'')"
    by code_simp
  have "fst (findGVR (Inl (External ''forbidden'')) ''NoSuch'' ?st) = (zeroGVR, Some (External ''forbidden''))
     \<and> fst (findGVR (Inr ?cat) ''NoSuch'' ?st) =
            (zeroGVR, Some (Errorf (''resource identifier not found: '' @ ''NoSuch'')))"
    using findGVR_errors [OF miss, of "External ''forbidden''" ?cat] nomatch by blast
  then show ?thesis by simp
qed

text \<open>
  C10. A call of \<^verbatim>\<open>findGVR\<close> that returns an error (the discovery call failed, the group
  and version of the match did not parse, or nothing matched) leaves the cache as it
  was. The cache changes only in a call that succeeds, and then only at the lower-cased
  identifier, which is mapped to the coordinate returned.
\<close>

theorem findGVR_failure_keeps_cache:
  "(snd (fst (findGVR discovery ident st)) \<noteq> None \<longrightarrow>
      gvrCache (snd (findGVR discovery ident st)) = gvrCache st)
   \<and> (gvrCache (snd (findGVR discovery ident st)) \<noteq> gvrCache st \<longrightarrow>
      snd (fst (findGVR discovery ident st)) = None
      \<and> gvrCache (snd (findGVR discovery ident st)) =
          (gvrCache st)(ToLower ident \<mapsto> fst (fst (findGVR discovery ident st))))"
  using findGVR_cache [of discovery ident st]
  by (cases "snd (fst (findGVR discovery ident st))") simp_all

theorem findGVR_failure_keeps_cache_witness:
  "gvrCache (snd (findGVR (Inl (External ''forbidden'')) ''pods''
       \<lparr>gvrCache = Map.empty, discoveryCalls = 0\<rparr>)) = Map.empty
   \<and> gvrCache (snd (findGVR
       (Inr [\<lparr>GroupVersion = ''a/b/c'', APIResources =
                [\<lparr>res_Name = ''pods'', res_Kind = ''Pod'', ShortNames = [''po'']\<rparr>]\<rparr>])
       ''pods'' \<lparr>gvrCache = Map.empty, discoveryCalls = 0\<rparr>)) = Map.empty
   \<and> gvrCache (snd (findGVR
       (Inr [\<lparr>GroupVersion = ''v1'', APIResources =
                [\<lparr>res_Name = ''pods'', res_Kind = ''Pod'', ShortNames = [''po'']\<rparr>]\<rparr>])
       ''nosuch'' \<lparr>gvrCache = Map.empty, discoveryCalls = 0\<rparr>)) = Map.empty"
proof -
  let ?st = "\<lparr>gvrCache = Map.empty, discoveryCalls = 0\<rparr>"
  let ?bad = "Inr [\<lparr>GroupVersion = ''a/b/c'', APIResources =
                [\<lparr>res_Name = ''pods'', res_Kind = ''Pod'', ShortNames = [''po'']\<rparr>]\<rparr>]
              :: error + APIResourceList list"
  let ?cat = "Inr [\<lparr>GroupVersion = ''v1'', APIResources =
                [\<lparr>res_Name = ''pods'', res_Kind = ''Pod'', ShortNames = [''po'']\<rparr>]\<rparr>]
              :: error + APIResourceList list"
  have e1: "snd (fst (findGVR (Inl (External ''forbidden'')) ''pods'' ?st)) \<noteq> None" by code_simp
  have e2: "snd (fst (findGVR ?bad ''pods'' ?st)) \<noteq> None" by code_simp
  have e3: "snd (fst (findGVR ?cat ''nosuch'' ?st)) \<noteq> None" by code_simp
  have "gvrCache (snd (findGVR (Inl (External ''forbidden'')) ''pods'' ?st)) = gvrCache ?st"
    using findGVR_failure_keeps_cache [of "Inl (External ''forbidden'')" "''pods''" ?st] e1 by blast
  moreover have "gvrCache (snd (findGVR ?bad ''pods'' ?st)) = gvrCache ?st"
    using findGVR_failure_keeps_cache [of ?bad "''pods''" ?st] e2 by blast
  moreover have "gvrCache (snd (findGVR ?cat ''nosuch'' ?st)) = gvrCache ?st"
    using findGVR_failure_keeps_cache [of ?cat "''nosuch''" ?st] e3 by blast
  ultimately show ?thesis by (simp only: resolver.simps simp_thms)
qed

section \<open>Properties of the graph sanitization\<close>

lemma matchDocs_set:
  "matchDocs node docs = Some ns \<Longrightarrow>
     set ns = (if list_ex (docNamed (Name node)) docs then {node} else {})"
proof (induction docs arbitrary: ns)
  case Nil
  then show ?case by simp
next
  case (Cons d docs)
  show ?case
  proof (cases d)
    case (JObject m)
    obtain ms where ms: "matchDocs node docs = Some ms"
      and ns: "ns = (if nameIs (m ''name'') (Name node) then [node] else []) @ ms"
      using Cons.prems JObject by (cases "matchDocs node docs") simp_all
    have ih: "set ms = (if list_ex (docNamed (Name node)) docs then {node} else {})"
      using ms by (rule Cons.IH)
    show ?thesis
    proof (cases "nameIs (m ''name'') (Name node)")
      case True
      then show ?thesis using ns ih JObject by simp
    next
      case False
      then show ?thesis using ns ih JObject by simp
    qed
  qed (use Cons.prems in simp_all)
qed

lemma filterNodes_set:
  "filterNodes resultMap nodes = Some fs \<Longrightarrow> set fs = {n \<in> set nodes. hasDocument resultMap n}"
proof (induction nodes arbitrary: fs)
  case Nil
  then show ?case by simp
next
  case (Cons node nodes)
  show ?case
  proof (cases "resultMap (node_Id node)")
    case None
    then have "filterNodes resultMap nodes = Some fs" using Cons.prems by simp
    then have "set fs = {n \<in> set nodes. hasDocument resultMap n}" by (rule Cons.IH)
    moreover have "\<not> hasDocument resultMap node" using None by (simp add: hasDocument_def)
    ultimately show ?thesis by (simp add: set_eq_iff) blast
  next
    case (Some j)
    show ?thesis
    proof (cases j)
      case JNull
      then have "filterNodes resultMap nodes = Some fs" using Cons.prems Some by simp
      then have "set fs = {n \<in> set nodes. hasDocument resultMap n}" by (rule Cons.IH)
      moreover have "\<not> hasDocument resultMap node" using Some JNull by (simp add: hasDocument_def)
      ultimately show ?thesis by (simp add: set_eq_iff) blast
    next
      case (JArray docs)
      then obtain ns ms where ns: "matchDocs node docs = Some ns"
        and ms: "filterNodes resultMap nodes = Some ms" and fs: "fs = ns @ ms"
        using Cons.prems Some by (auto split: option.splits)
      have "set ms = {n \<in> set nodes. hasDocument resultMap n}" using ms by (rule Cons.IH)
      moreover have "set ns = (if hasDocument resultMap node then {node} else {})"
        using matchDocs_set [OF ns] Some JArray by (simp add: hasDocument_def)
      ultimately show ?thesis using fs by (simp add: set_eq_iff) blast
    qed (use Cons.prems Some in simp_all)
  qed
qed

lemma mapInsert_values: "snd ` set (mapInsert k v m) \<subseteq> insert v (snd ` set m)"
  by (induction m) auto

lemma buildNodeMap_values: "snd ` set (buildNodeMap nodes m) \<subseteq> set nodes \<union> snd ` set m"
proof (induction nodes arbitrary: m)
  case Nil
  then show ?case by simp
next
  case (Cons node nodes)
  have "snd ` set (buildNodeMap nodes (mapInsert (nodeId node) node m))
      \<subseteq> set nodes \<union> snd ` set (mapInsert (nodeId node) node m)"
    by (rule Cons.IH)
  then show ?case using mapInsert_values [of "nodeId node" node m] by auto
qed

lemma sanitizeGraph_ok:
  assumes "sanitizeGraph rangeOrder Unmarshal g result = Some (g', None)"
    and "Unmarshal result = Inr resultMap"
  shows "filterNodes resultMap (rangeOrder (map snd (buildNodeMap (Nodes g) []))) = Some (Nodes g')
    \<and> Edges g' = filter (\<lambda>e. From e \<in> nodeId ` set (Nodes g') \<and> To e \<in> nodeId ` set (Nodes g')) (Edges g)"
proof (cases "filterNodes resultMap (rangeOrder (map snd (buildNodeMap (Nodes g) [])))")
  case None
  then show ?thesis using assms by (simp add: sanitizeGraph_def Let_def)
next
  case (Some fs)
  then have "g' = g\<lparr>Nodes := fs,
      Edges := filter (\<lambda>edge. From edge \<in> set (map nodeId fs) \<and> To edge \<in> set (map nodeId fs)) (Edges g)\<rparr>"
    using assms by (simp add: sanitizeGraph_def Let_def)
  then show ?thesis using Some by simp
qed

text \<open>
  C6. When \<^verbatim>\<open>sanitizeGraph\<close> returns without an error, whatever the order in which the
  node map was visited: every edge that survives is an edge of the input whose \<^verbatim>\<open>From\<close>
  and \<^verbatim>\<open>To\<close> are the ids (kind, slash, name) of surviving nodes, and every surviving
  node has a matching document in the result; an edge of the input one of whose
  endpoints is the id of no node with a matching document is dropped; the surviving
  edges are exactly the input's edges between two surviving nodes, in their order; and
  the surviving nodes are those of the deduplicated node list that have a matching
  document.
\<close>

theorem sanitizeGraph_edges:
  assumes ok: "sanitizeGraph rangeOrder Unmarshal g result = Some (g', None)"
    and um: "Unmarshal result = Inr resultMap"
    and ro: "\<forall>xs. set (rangeOrder xs) = set xs"
  shows "(\<forall>e\<in>set (Edges g'). e \<in> set (Edges g)
            \<and> (\<exists>n\<in>set (Nodes g'). nodeId n = From e \<and> hasDocument resultMap n)
            \<and> (\<exists>n\<in>set (Nodes g'). nodeId n = To e \<and> hasDocument resultMap n))
    \<and> (\<forall>e\<in>set (Edges g).
          (\<forall>n\<in>set (Nodes g). nodeId n = From e \<longrightarrow> \<not> hasDocument resultMap n)
          \<or> (\<forall>n\<in>set (Nodes g). nodeId n = To e \<longrightarrow> \<not> hasDocument resultMap n)
          \<longrightarrow> e \<notin> set (Edges g'))
    \<and> Edges g' = filter (\<lambda>e. From e \<in> nodeId ` set (Nodes g') \<and> To e \<in> nodeId ` set (Nodes g')) (Edges g)
    \<and> set (Nodes g') = {n \<in> set (map snd (buildNodeMap (Nodes g) [])). hasDocument resultMap n}"
proof -
  let ?dedup = "map snd (buildNodeMap (Nodes g) [])"
  have nodes: "set (Nodes g') = {n \<in> set ?dedup. hasDocument resultMap n}"
    using filterNodes_set [of resultMap "rangeOrder ?dedup" "Nodes g'"] sanitizeGraph_ok [OF ok um] ro by simp
  have edges: "Edges g' = filter (\<lambda>e. From e \<in> nodeId ` set (Nodes g') \<and> To e \<in> nodeId ` set (Nodes g')) (Edges g)"
    using sanitizeGraph_ok [OF ok um] by simp
  have sub: "set (Nodes g') \<subseteq> set (Nodes g)"
    using nodes buildNodeMap_values [of "Nodes g" "[]"] by auto
  have doc: "\<forall>n\<in>set (Nodes g'). hasDocument resultMap n"
    using nodes by simp
  have mem: "e \<in> set (Edges g') \<longleftrightarrow>
      e \<in> set (Edges g) \<and> From e \<in> nodeId ` set (Nodes g') \<and> To e \<in> nodeId ` set (Nodes g')" for e
    by (subst edges) auto
  have a: "\<forall>e\<in>set (Edges g'). e \<in> set (Edges g)
            \<and> (\<exists>n\<in>set (Nodes g'). nodeId n = From e \<and> hasDocument resultMap n)
            \<and> (\<exists>n\<in>set (Nodes g'). nodeId n = To e \<and> hasDocument resultMap n)"
  proof
    fix e assume "e \<in> set (Edges g')"
    then have e: "e \<in> set (Edges g)" and f: "From e \<in> nodeId ` set (Nodes g')"
      and t: "To e \<in> nodeId ` set (Nodes g')"
      using mem [of e] by simp_all
    obtain n where n: "n \<in> set (Nodes g')" "nodeId n = From e" using f by force
    obtain m where m: "m \<in> set (Nodes g')" "nodeId m = To e" using t by force
    show "e \<in> set (Edges g)
            \<and> (\<exists>n\<in>set (Nodes g'). nodeId n = From e \<and> hasDocument resultMap n)
            \<and> (\<exists>n\<in>set (Nodes g'). nodeId n = To e \<and> hasDocument resultMap n)"
      using e n m doc by blast
  qed
  have b: "\<forall>e\<in>set (Edges g).
          (\<forall>n\<in>set (Nodes g). nodeId n = From e \<longrightarrow> \<not> hasDocument resultMap n)
          \<or> (\<forall>n\<in>set (Nodes g). nodeId n = To e \<longrightarrow> \<not> hasDocument resultMap n)
          \<longrightarrow> e \<notin> set (Edges g')"
  proof (intro ballI impI notI)
    fix e
    assume h: "(\<forall>n\<in>set (Nodes g). nodeId n = From e \<longrightarrow> \<not> hasDocument resultMap n)
          \<or> (\<forall>n\<in>set (Nodes g). nodeId n = To e \<longrightarrow> \<not> hasDocument resultMap n)"
      and "e \<in> set (Edges g')"
    then obtain n m where "n \<in> set (Nodes g')" "nodeId n = From e" "hasDocument resultMap n"
      "m \<in> set (Nodes g')" "nodeId m = To e" "hasDocument resultMap m"
      using a by blast
    then show False using h sub by blast
  qed
  show ?thesis by (intro conjI a b edges nodes)
qed

theorem sanitizeGraph_edges_witness:
  "sanitizeGraph rev
     (\<lambda>r. Inr [''d'' \<mapsto> JArray [JObject [''name'' \<mapsto> JString ''web'']],
                ''p'' \<mapsto> JArray [JObject [''name'' \<mapsto> JString ''web-1'']],
                ''s'' \<mapsto> JArray []])
     \<lparr>Nodes = [\<lparr>node_Id = ''d'', Kind = ''Deployment'', Name = ''web''\<rparr>,
               \<lparr>node_Id = ''p'', Kind = ''Pod'', Name = ''web-1''\<rparr>,
               \<lparr>node_Id = ''s'', Kind = ''Service'', Name = ''svc''\<rparr>],
      Edges = [\<lparr>From = ''Deployment/web'', To = ''Pod/web-1'', Type = ''OWNS''\<rparr>,
               \<lparr>From = ''Service/svc'', To = ''Pod/web-1'', Type = ''EXPOSE''\<rparr>]\<rparr>
     ''{}''
   = Some (\<lparr>Nodes = [\<lparr>node_Id = ''p'', Kind = ''Pod'', Name = ''web-1''\<rparr>,
                     \<lparr>node_Id = ''d'', Kind = ''Deployment'', Name = ''web''\<rparr>],
            Edges = [\<lparr>From = ''Deployment/web'', To = ''Pod/web-1'', Type = ''OWNS''\<rparr>]\<rparr>, None)
   \<and> \<not> hasDocument [''d'' \<mapsto> JArray [JObject [''name'' \<mapsto> JString ''web'']],
                ''p'' \<mapsto> JArray [JObject [''name'' \<mapsto> JString ''web-1'']],
                ''s'' \<mapsto> JArray []] \<lparr>node_Id = ''s'', Kind = ''Service'', Name = ''svc''\<rparr>
   \<and> [\<lparr>From = ''Deployment/web'', To = ''Pod/web-1'', Type = ''OWNS''\<rparr>] =
       filter (\<lambda>e. From e \<in> nodeId ` {\<lparr>node_Id = ''p'', Kind = ''Pod'', Name = ''web-1''\<rparr>,
                                        \<lparr>node_Id = ''d'', Kind = ''Deployment'', Name = ''web''\<rparr>}
                  \<and> To e \<in> nodeId ` {\<lparr>node_Id = ''p'', Kind = ''Pod'', Name = ''web-1''\<rparr>,
                                        \<lparr>node_Id = ''d'', Kind = ''Deployment'', Name = ''web''\<rparr>})
         [\<lparr>From = ''Deployment/web'', To = ''Pod/web-1'', Type = ''OWNS''\<rparr>,
          \<lparr>From = ''Service/svc'', To = ''Pod/web-1'', Type = ''EXPOSE''\<rparr>]"
proof -
  let ?rm = "[''d'' \<mapsto> JArray [JObject [''name'' \<mapsto> JString ''web'']],
                ''p'' \<mapsto> JArray [JObject [''name'' \<mapsto> JString ''web-1'']],
                ''s'' \<mapsto> JArray []]"
  let ?um = "\<lambda>r::string. (Inr ?rm :: error + (string \<Rightarrow> json option))"
  let ?g = "\<lparr>Nodes = [\<lparr>node_Id = ''d'', Kind = ''Deployment'', Name = ''web''\<rparr>,
               \<lparr>node_Id = ''p'', Kind = ''Pod'', Name = ''web-1''\<rparr>,
               \<lparr>node_Id = ''s'', Kind = ''Service'', Name = ''svc''\<rparr>],
      Edges = [\<lparr>From = ''Deployment/web'', To = ''Pod/web-1'', Type = ''OWNS''\<rparr>,
               \<lparr>From = ''Service/svc'', To = ''Pod/web-1'', Type = ''EXPOSE''\<rparr>]\<rparr>"
  let ?g' = "\<lparr>Nodes = [\<lparr>node_Id = ''p'', Kind = ''Pod'', Name = ''web-1''\<rparr>,
                     \<lparr>node_Id = ''d'', Kind = ''Deployment'', Name = ''web''\<rparr>],
            Edges = [\<lparr>From = ''Deployment/web'', To = ''Pod/web-1'', Type = ''OWNS''\<rparr>]\<rparr>"
  have ok: "sanitizeGraph rev ?um ?g ''{}'' = Some (?g', None)"
    by code_simp
  have nd: "\<not> hasDocument ?rm \<lparr>node_Id = ''s'', Kind = ''Service'', Name = ''svc''\<rparr>"
    by code_simp
  have um: "?um ''{}'' = Inr ?rm" by simp
  have ro: "\<forall>xs::Node list. set (rev xs) = set xs" by simp
  have "Edges ?g' = filter (\<lambda>e. From e \<in> nodeId ` set (Nodes ?g') \<and> To e \<in> nodeId ` set (Nodes ?g'))
      (Edges ?g)"
    using sanitizeGraph_edges [OF ok um ro] by (elim conjE)
  then have ed: "[\<lparr>From = ''Deployment/web'', To = ''Pod/web-1'', Type = ''OWNS''\<rparr>] =
       filter (\<lambda>e. From e \<in> nodeId ` {\<lparr>node_Id = ''p'', Kind = ''Pod'', Name = ''web-1''\<rparr>,
                                        \<lparr>node_Id = ''d'', Kind = ''Deployment'', Name = ''web''\<rparr>}
                  \<and> To e \<in> nodeId ` {\<lparr>node_Id = ''p'', Kind = ''Pod'', Name = ''web-1''\<rparr>,
                                        \<lparr>node_Id = ''d'', Kind = ''Deployment'', Name = ''web''\<rparr>})
         [\<lparr>From = ''Deployment/web'', To = ''Pod/web-1'', Type = ''OWNS''\<rparr>,
          \<lparr>From = ''Service/svc'', To = ''Pod/web-1'', Type = ''EXPOSE''\<rparr>]"
    by (simp only: Graph.simps list.set)
  show ?thesis by (intro conjI ok nd ed)
qed

lemma Split_no_sep:
  assumes "CHR ''/'' \<notin> set str"
  shows "Split str = [str]"
proof -
  have "dropWhile (\<lambda>c. c \<noteq> CHR ''/'') str = []"
    using assms by auto
  then show ?thesis by (subst Split.simps) (simp only: list.case)
qed

lemma Split_sep:
  assumes "CHR ''/'' \<in> set str"
  shows "Split str = takeWhile (\<lambda>c. c \<noteq> CHR ''/'') str
           # Split (tl (dropWhile (\<lambda>c. c \<noteq> CHR ''/'') str))"
proof -
  have "dropWhile (\<lambda>c. c \<noteq> CHR ''/'') str \<noteq> []"
    using assms by (simp add: dropWhile_eq_Nil_conv)
  then obtain sep rest where d: "dropWhile (\<lambda>c. c \<noteq> CHR ''/'') str = sep # rest"
    by (cases "dropWhile (\<lambda>c. c \<noteq> CHR ''/'') str") auto
  show ?thesis by (subst Split.simps) (simp only: d list.case list.sel)
qed

lemma Split_hd: "\<exists>ps. Split str = takeWhile (\<lambda>c. c \<noteq> CHR ''/'') str # ps"
proof (cases "CHR ''/'' \<in> set str")
  case True
  then show ?thesis using Split_sep by blast
next
  case False
  then have "takeWhile (\<lambda>c. c \<noteq> CHR ''/'') str = str" by (auto simp: takeWhile_eq_all_conv)
  then have "Split str = takeWhile (\<lambda>c. c \<noteq> CHR ''/'') str # []"
    using Split_no_sep [OF False] by (simp only:)
  then show ?thesis by blast
qed

lemma getKindFromNodeId_eq:
  "getKindFromNodeId str = Some (takeWhile (\<lambda>c. c \<noteq> CHR ''/'') str)"
  using Split_hd [of str] by (auto simp: getKindFromNodeId_def)

lemma getNameFromNodeId_eq:
  "getNameFromNodeId str =
     (if CHR ''/'' \<in> set str
      then Some (takeWhile (\<lambda>c. c \<noteq> CHR ''/'') (tl (dropWhile (\<lambda>c. c \<noteq> CHR ''/'') str)))
      else None)"
proof (cases "CHR ''/'' \<in> set str")
  case True
  obtain ps where "Split (tl (dropWhile (\<lambda>c. c \<noteq> CHR ''/'') str)) =
      takeWhile (\<lambda>c. c \<noteq> CHR ''/'') (tl (dropWhile (\<lambda>c. c \<noteq> CHR ''/'') str)) # ps"
    using Split_hd by blast
  then show ?thesis using True Split_sep [OF True] by (simp add: getNameFromNodeId_def)
next
  case False
  then show ?thesis using Split_no_sep [OF False] by (simp add: getNameFromNodeId_def)
qed

text \<open>
  C9. An id built by \<^verbatim>\<open>sanitizeGraph\<close> is the kind, a slash and the name.
  \<^verbatim>\<open>getKindFromNodeId\<close> never fails and returns the segment before the first slash;
  \<^verbatim>\<open>getNameFromNodeId\<close> returns the segment between the first slash and the next one (or
  the end) when the id contains a slash, and its index is out of range exactly when the
  id contains none. So both succeed on the id of a node (giving back the kind and the
  name when these contain no slash), and on both ends of every edge that
  \<^verbatim>\<open>sanitizeGraph\<close> lets through.
\<close>

theorem nodeId_split:
  "nodeId node = Kind node @ ''/'' @ Name node
   \<and> getKindFromNodeId str = Some (takeWhile (\<lambda>c. c \<noteq> CHR ''/'') str)
   \<and> (CHR ''/'' \<in> set str \<longrightarrow>
        getNameFromNodeId str =
          Some (takeWhile (\<lambda>c. c \<noteq> CHR ''/'') (tl (dropWhile (\<lambda>c. c \<noteq> CHR ''/'') str))))
   \<and> (CHR ''/'' \<notin> set str \<longrightarrow> getNameFromNodeId str = None)
   \<and> getNameFromNodeId (nodeId node) \<noteq> None
   \<and> (CHR ''/'' \<notin> set (Kind node) \<longrightarrow> getKindFromNodeId (nodeId node) = Some (Kind node))
   \<and> (CHR ''/'' \<notin> set (Kind node) \<and> CHR ''/'' \<notin> set (Name node) \<longrightarrow>
        getNameFromNodeId (nodeId node) = Some (Name node))
   \<and> (sanitizeGraph rangeOrder Unmarshal g result = Some (g', None) \<longrightarrow>
        (\<forall>e\<in>set (Edges g'). From e \<in> nodeId ` set (Nodes g') \<and> To e \<in> nodeId ` set (Nodes g')
            \<and> getNameFromNodeId (From e) \<noteq> None \<and> getNameFromNodeId (To e) \<noteq> None))"
proof (intro conjI impI)
  show "nodeId node = Kind node @ ''/'' @ Name node" by (simp add: nodeId_def)
  show "getKindFromNodeId str = Some (takeWhile (\<lambda>c. c \<noteq> CHR ''/'') str)"
    by (rule getKindFromNodeId_eq)
  show "getNameFromNodeId str =
          Some (takeWhile (\<lambda>c. c \<noteq> CHR ''/'') (tl (dropWhile (\<lambda>c. c \<noteq> CHR ''/'') str)))"
    if "CHR ''/'' \<in> set str" using that by (simp add: getNameFromNodeId_eq)
  show "getNameFromNodeId str = None" if "CHR ''/'' \<notin> set str"
    using that by (simp add: getNameFromNodeId_eq)
  show "getNameFromNodeId (nodeId node) \<noteq> None"
    by (simp add: getNameFromNodeId_eq nodeId_def)
  show "getKindFromNodeId (nodeId node) = Some (Kind node)" if "CHR ''/'' \<notin> set (Kind node)"
    using that by (simp add: getKindFromNodeId_eq nodeId_def takeWhile_append)
  show "getNameFromNodeId (nodeId node) = Some (Name node)"
    if "CHR ''/'' \<notin> set (Kind node) \<and> CHR ''/'' \<notin> set (Name node)"
  proof -
    have "dropWhile (\<lambda>c. c \<noteq> CHR ''/'') (Kind node @ ''/'' @ Name node) = ''/'' @ Name node"
      using that by (simp add: dropWhile_append)
    moreover have "takeWhile (\<lambda>c. c \<noteq> CHR ''/'') (Name node) = Name node"
      using that by (auto simp: takeWhile_eq_all_conv)
    ultimately show ?thesis by (simp add: getNameFromNodeId_eq nodeId_def)
  qed
  show "\<forall>e\<in>set (Edges g'). From e \<in> nodeId ` set (Nodes g') \<and> To e \<in> nodeId ` set (Nodes g')
            \<and> getNameFromNodeId (From e) \<noteq> None \<and> getNameFromNodeId (To e) \<noteq> None"
    if ok: "sanitizeGraph rangeOrder Unmarshal g result = Some (g', None)"
  proof
    fix e assume e: "e \<in> set (Edges g')"
    obtain resultMap where um: "Unmarshal result = Inr resultMap"
      using ok by (cases "Unmarshal result") (simp_all add: sanitizeGraph_def Let_def)
    obtain fs where fs: "filterNodes resultMap (rangeOrder (map snd (buildNodeMap (Nodes g) []))) = Some fs"
      using ok um by (cases "filterNodes resultMap (rangeOrder (map snd (buildNodeMap (Nodes g) [])))")
        (simp_all add: sanitizeGraph_def Let_def)
    have g': "g' = g\<lparr>Nodes := fs,
        Edges := filter (\<lambda>edge. From edge \<in> set (map nodeId fs) \<and> To edge \<in> set (map nodeId fs)) (Edges g)\<rparr>"
      using ok um fs by (simp add: sanitizeGraph_def Let_def)
    have ft: "From e \<in> nodeId ` set (Nodes g')" "To e \<in> nodeId ` set (Nodes g')"
      using e g' by simp_all
    have sl: "CHR ''/'' \<in> set x" if "x \<in> nodeId ` set (Nodes g')" for x
      using that by (auto simp: nodeId_def)
    show "From e \<in> nodeId ` set (Nodes g') \<and> To e \<in> nodeId ` set (Nodes g')
            \<and> getNameFromNodeId (From e) \<noteq> None \<and> getNameFromNodeId (To e) \<noteq> None"
      using ft sl [OF ft(1)] sl [OF ft(2)] by (simp add: getNameFromNodeId_eq)
  qed
qed

theorem nodeId_split_witness:
  "getKindFromNodeId ''Deployment/web'' = Some ''Deployment''
   \<and> getNameFromNodeId ''Deployment/web'' = Some ''web''
   \<and> getNameFromNodeId ''Deployment'' = None"
proof -
  let ?node = "\<lparr>node_Id = ''d'', Kind = ''Deployment'', Name = ''web''\<rparr>"
  have n: "nodeId ?node = ''Deployment/web''" by (simp add: nodeId_def)
  have k: "CHR ''/'' \<notin> set (Kind ?node)" and m: "CHR ''/'' \<notin> set (Name ?node)"
    and d: "CHR ''/'' \<notin> set ''Deployment''"
    by simp_all
  have "getKindFromNodeId (nodeId ?node) = Some (Kind ?node)
    \<and> getNameFromNodeId (nodeId ?node) = Some (Name ?node)
    \<and> getNameFromNodeId ''Deployment'' = None"
    using nodeId_split [of ?node "''Deployment''"] k m d by blast
  then show ?thesis by (simp only: n Node.simps)
qed

section \<open>Properties of the request worker\<close>

lemma count_update:
  "i < length xs \<Longrightarrow>
     length (filter P (xs[i := y])) + (if P (xs ! i) then 1 else 0)
       = length (filter P xs) + (if P y then 1 else 0)"
proof (induction xs arbitrary: i)
  case Nil
  then show ?case by simp
next
  case (Cons x xs)
  show ?case
  proof (cases i)
    case 0
    then show ?thesis by simp
  next
    case (Suc j)
    then have "j < length xs" using Cons.prems by simp
    then show ?thesis using Cons.IH [of j] Suc by simp
  qed
qed

lemma step_tokens_held:
  assumes "step e e'" and "tokens_held e"
  shows "tokens_held e'"
  using assms
proof (cases rule: step.cases)
  case (submit i w)
  then show ?thesis using assms(2) count_update [of w "workers e" holding "Acquiring i"]
    by (simp add: tokens_held_def)
next
  case (acquire w i)
  then show ?thesis using assms(2) count_update [of w "workers e" holding "Fetching i"]
    by (simp add: tokens_held_def)
next
  case (fetched w i)
  then show ?thesis using assms(2) count_update [of w "workers e" holding "Releasing i"]
    by (simp add: tokens_held_def)
next
  case (release w i)
  then show ?thesis using assms(2) count_update [of w "workers e" holding "Replying i"]
    by (auto simp: tokens_held_def)
next
  case (reply w i)
  then show ?thesis using assms(2) count_update [of w "workers e" holding Receiving]
    by (simp add: tokens_held_def)
qed

lemma reachable_tokens_held: "reachable n e \<Longrightarrow> tokens_held e"
proof (induction rule: reachable.induct)
  case (start n)
  show ?case by (simp add: NewQueryExecutor_def tokens_held_def)
next
  case (after n e e')
  then show ?case using step_tokens_held by blast
qed

lemma fetching_holding: "length (filter fetching ws) \<le> length (filter holding ws)"
proof (induction ws)
  case Nil
  show ?case by simp
next
  case (Cons w ws)
  then show ?case by (cases w) simp_all
qed

text \<open>
  C5. With the semaphore at its capacity 1, for any number \<open>n\<close> of callers submitting
  concurrently and in every state the executor can reach from its start, at most one
  call of \<^verbatim>\<open>fetchResources\<close> is in flight: a worker is inside the call only between its
  acquire and its release of the token, and the tokens held never exceed the capacity.
\<close>

theorem fetches_serialized: "reachable n e \<Longrightarrow> inFlight e \<le> 1"
proof -
  assume "reachable n e"
  then have "tokens_held e" by (rule reachable_tokens_held)
  then have "length (filter holding (workers e)) \<le> 1"
    by (simp add: tokens_held_def semaphoreCap_def)
  then show ?thesis
    using fetching_holding [of "workers e"] by (simp add: inFlight_def)
qed

theorem fetches_serialized_witness:
  "reachable 2 \<lparr>callers = [Waiting, Sending], workers = [Fetching 0], semaphore = 1\<rparr>
   \<and> inFlight \<lparr>callers = [Waiting, Sending], workers = [Fetching 0], semaphore = 1\<rparr> = 1"
proof -
  have s0: "reachable 2 \<lparr>callers = [Sending, Sending], workers = [Receiving], semaphore = 0\<rparr>"
    using reachable.start [of 2] by (simp add: NewQueryExecutor_def numeral_2_eq_2)
  have "step \<lparr>callers = [Sending, Sending], workers = [Receiving], semaphore = 0\<rparr>
             \<lparr>callers = [Waiting, Sending], workers = [Acquiring 0], semaphore = 0\<rparr>"
    using step.submit [of 0 "\<lparr>callers = [Sending, Sending], workers = [Receiving], semaphore = 0\<rparr>" 0]
    by simp
  then have s1: "reachable 2 \<lparr>callers = [Waiting, Sending], workers = [Acquiring 0], semaphore = 0\<rparr>"
    using s0 reachable.after by blast
  have "step \<lparr>callers = [Waiting, Sending], workers = [Acquiring 0], semaphore = 0\<rparr>
             \<lparr>callers = [Waiting, Sending], workers = [Fetching 0], semaphore = 1\<rparr>"
    using step.acquire [of 0 "\<lparr>callers = [Waiting, Sending], workers = [Acquiring 0], semaphore = 0\<rparr>" 0]
    by (simp add: semaphoreCap_def)
  then have s2: "reachable 2 \<lparr>callers = [Waiting, Sending], workers = [Fetching 0], semaphore = 1\<rparr>"
    using s1 reachable.after by blast
  have "inFlight \<lparr>callers = [Waiting, Sending], workers = [Fetching 0], semaphore = 1\<rparr> \<le> 1"
    using fetches_serialized [OF s2] .
  moreover have "1 \<le> inFlight \<lparr>callers = [Waiting, Sending], workers = [Fetching 0], semaphore = 1\<rparr>"
    by (simp add: inFlight_def)
  ultimately show ?thesis using s2 by simp
qed

end
